theory Spec2Isabelle
  imports Main
begin

section \<open>The simple command parser (simple\_command\_parser.c)\<close>

text \<open>
  A shallow embedding of the parser module of \<^verbatim>\<open>simple_command_parser.c\<close> (the
  code that includes \<^verbatim>\<open>simple_command_parser.h\<close>): the command list with
  \<^verbatim>\<open>scp_init\<close> and \<^verbatim>\<open>scp_add_command\<close>, the line reader \<^verbatim>\<open>input\<close>, the
  search \<^verbatim>\<open>find_command\<close> and the loop of \<^verbatim>\<open>scp_parse\<close>.

  Conventions of the model.
  \<^item> C strings are \<^typ>\<open>string\<close>; a pointer that may be \<^verbatim>\<open>NULL\<close> is an
    \<^typ>\<open>'a option\<close>. Tokens and arguments are passed as the strings they point to.
  \<^item> \<^verbatim>\<open>int\<close> values are \<^typ>\<open>int\<close>; the prompt counter and the list size are
    not taken to overflow.
  \<^item> A failed \<^verbatim>\<open>assert\<close>, a library call that reads through a null pointer and a
    write outside the array \<^verbatim>\<open>strbuff\<close> are results \<open>Inl e\<close>: the program does not
    go on in a defined state. The Makefile builds without \<^verbatim>\<open>NDEBUG\<close>, so
    assertions are active.
  \<^item> The singly linked list of command nodes is the list of its nodes, head first.
  \<^item> \<^verbatim>\<open>malloc\<close> is taken to succeed.
  \<^item> Handlers registered by the caller are functions of \<open>argc\<close> and \<open>argv\<close>; they do
    not call back into the parser.
\<close>

subsection \<open>Constants\<close>

definition MAX_CMD_STR :: nat where
  "MAX_CMD_STR = 11"

definition MAX_ABBR_STR :: nat where
  "MAX_ABBR_STR = 5"

definition MAX_HELP_STR :: nat where
  "MAX_HELP_STR = 41"

definition MAX_INPUT_BUFFER :: int where
  "MAX_INPUT_BUFFER = 128"

definition MAX_ARGC :: int where
  "MAX_ARGC = 6"

text \<open>The characters the reader tests for, and the byte that \<^verbatim>\<open>'\0'\<close> is.\<close>

definition NUL :: char where
  "NUL = CHR 0x00"

definition BS :: char where
  "BS = CHR 0x08"

definition LF :: char where
  "LF = CHR 0x0A"

definition CR :: char where
  "CR = CHR 0x0D"

definition DEL :: char where
  "DEL = CHR 0x7F"

subsection \<open>Data model\<close>

datatype error = AssertionFailed | NullPointer | BufferOverflow

text \<open>
  A \<^verbatim>\<open>cmd_func_t\<close> value. The two built-in handlers are \<^verbatim>\<open>static\<close>, so
  code outside the file can only pass handlers of its own; those are modelled as
  functions of \<open>argc\<close> and \<open>argv\<close> that return an \<^verbatim>\<open>int\<close>.
\<close>

datatype cmd_func =
    HelpCmdFunc
  | EndCmdFunc
  | UserFunc "int \<Rightarrow> string list \<Rightarrow> int"

record command_t =
  cmd_str :: string
  abbr_str :: "string option"
  help_str :: string
  min_arg :: int
  max_arg :: int
  func :: cmd_func

record list_t =
  head :: "command_t list"
  list_size :: int

text \<open>
  What the program writes to the terminal, one constructor for each output statement
  of the source:
  \<^item> \<open>Putch c\<close>: \<^verbatim>\<open>PUTCH(c)\<close>; \<open>Erase\<close>: \<^verbatim>\<open>printf("\b \b")\<close>;
    \<open>Newline\<close>: \<^verbatim>\<open>printf("\n")\<close>;
  \<^item> \<open>Prompt count\<close>: \<^verbatim>\<open>printf("In [%d]> ", count)\<close>;
  \<^item> \<open>TooFew count name min\<close>: the "too few args (less than min)" message;
  \<^item> \<open>TooMany count name max\<close>: the "too many args (more than max)" message;
  \<^item> \<open>Result count r\<close>: \<^verbatim>\<open>printf("Out[%d]> %d", count, r)\<close>;
  \<^item> \<open>Unknown count token\<close>: the "Unknown Command" message;
  \<^item> \<open>HelpHeader\<close>, \<open>HelpLine name abbr help\<close>: the lines of the help listing.
\<close>

datatype tty_out =
    Putch char
  | Erase
  | Newline
  | Prompt int
  | TooFew int string int
  | TooMany int string int
  | Result int int
  | Unknown int "string option"
  | HelpHeader
  | HelpLine string "string option" string

text \<open>
  The state of the program: the two file-scope variables \<^verbatim>\<open>cmd_list\<close> and
  \<^verbatim>\<open>end_parsing\<close>, the keystrokes not yet read, the terminal output so far, and
  a log of the handler calls made (handler, \<open>argc\<close>, \<open>argv\<close>), which the source does
  not keep and the model adds to observe them.
\<close>

record scp_state =
  cmd_list :: list_t
  end_parsing :: int
  stdin :: "char list"
  stdout :: "tty_out list"
  calls :: "(cmd_func \<times> int \<times> string list) list"

text \<open>The state at program start: statics zeroed, nothing printed, \<open>ks\<close> to be typed.\<close>

definition startup :: "char list \<Rightarrow> scp_state" where
  "startup ks =
     \<lparr>cmd_list = \<lparr>head = [], list_size = 0\<rparr>, end_parsing = 0,
      stdin = ks, stdout = [], calls = []\<rparr>"

definition printf :: "tty_out list \<Rightarrow> scp_state \<Rightarrow> scp_state" where
  "printf xs s = s\<lparr>stdout := stdout s @ xs\<rparr>"

subsection \<open>Library functions\<close>

fun strcmp :: "string \<Rightarrow> string \<Rightarrow> int" where
  "strcmp [] [] = 0"
| "strcmp [] (y # ys) = - 1"
| "strcmp (x # xs) [] = 1"
| "strcmp (x # xs) (y # ys) =
     (if x = y then strcmp xs ys
      else if (of_char x :: nat) < of_char y then - 1 else 1)"

text \<open>
  \<^verbatim>\<open>strtok\<close>: skip leading delimiters; none left gives \<^verbatim>\<open>NULL\<close>; otherwise the
  token runs to the next delimiter, which is overwritten by the terminator, and the
  scan resumes after it. The second component is the saved position, which the library
  keeps for the calls \<^verbatim>\<open>strtok(NULL, ...)\<close>.
\<close>

definition strtok :: "string \<Rightarrow> string \<Rightarrow> string option \<times> string" where
  "strtok str delim =
     (let s1 = dropWhile (\<lambda>c. c \<in> set delim) str in
      if s1 = [] then (None, [])
      else (Some (takeWhile (\<lambda>c. c \<notin> set delim) s1),
            drop 1 (dropWhile (\<lambda>c. c \<notin> set delim) s1)))"

text \<open>
  \<^verbatim>\<open>GETCH\<close> is \<^verbatim>\<open>getchar\<close> on Linux: the next keystroke, and at end of input
  \<^verbatim>\<open>EOF\<close>, which the assignment to a \<^verbatim>\<open>char\<close> turns into the byte 0xFF.
\<close>

definition GETCH :: "char list \<Rightarrow> char \<times> char list" where
  "GETCH ks = (case ks of [] \<Rightarrow> (CHR 0xFF, []) | k # r \<Rightarrow> (k, r))"

subsection \<open>Built-in handlers and registration\<close>

definition help_cmd_func :: "int \<Rightarrow> string list \<Rightarrow> scp_state \<Rightarrow> int \<times> scp_state" where
  "help_cmd_func argc argv s =
     (1, printf ([HelpHeader]
                 @ map (\<lambda>c. HelpLine (cmd_str c) (abbr_str c) (help_str c)) (head (cmd_list s))
                 @ [Newline]) s)"

definition end_cmd_func :: "int \<Rightarrow> string list \<Rightarrow> scp_state \<Rightarrow> int \<times> scp_state" where
  "end_cmd_func argc argv s = (1, s\<lparr>end_parsing := 1\<rparr>)"

definition new_command ::
  "string \<Rightarrow> string option \<Rightarrow> string \<Rightarrow> int \<Rightarrow> int \<Rightarrow> cmd_func \<Rightarrow> command_t" where
  "new_command cmd abbr help mn mx f =
     \<lparr>cmd_str = cmd, abbr_str = abbr, help_str = help, min_arg = mn, max_arg = mx, func = f\<rparr>"

definition scp_init :: "int \<Rightarrow> scp_state \<Rightarrow> error + scp_state" where
  "scp_init do_not_exit s =
     (if head (cmd_list s) \<noteq> [] then Inl AssertionFailed
      else
        let help_cmd = new_command ''help'' (Some ''h'') ''Lists all commands available.''
                         0 0 HelpCmdFunc;
            l1 = (cmd_list s)\<lparr>head := [help_cmd], list_size := list_size (cmd_list s) + 1\<rparr>
        in
          if do_not_exit = 0 then
            let end_cmd = new_command ''end'' (Some ''end'') ''Exit the parser.''
                            0 0 EndCmdFunc
            in Inr (s\<lparr>cmd_list := l1\<lparr>head := head l1 @ [end_cmd],
                                       list_size := list_size l1 + 1\<rparr>\<rparr>)
          else Inr (s\<lparr>cmd_list := l1\<rparr>))"

text \<open>
  \<^verbatim>\<open>scp_add_command\<close>, its checks in the order of the source. The abbreviation is
  not tested for \<^verbatim>\<open>NULL\<close> before \<^verbatim>\<open>strlen(abbr_str)\<close> is called. The handler
  is a function pointer of the caller: null, or a function of the caller's own.
\<close>

definition scp_add_command ::
  "string option \<Rightarrow> string option \<Rightarrow> string option \<Rightarrow> int \<Rightarrow> int \<Rightarrow>
   (int \<Rightarrow> string list \<Rightarrow> int) option \<Rightarrow> scp_state \<Rightarrow> error + scp_state" where
  "scp_add_command cmd abbr help mn mx f s =
     (if head (cmd_list s) = [] then Inl AssertionFailed
      else case cmd of None \<Rightarrow> Inl AssertionFailed | Some cmd_s \<Rightarrow>
      (case help of None \<Rightarrow> Inl AssertionFailed | Some help_s \<Rightarrow>
      (if mx < mn then Inl AssertionFailed
       else case f of None \<Rightarrow> Inl AssertionFailed | Some fn \<Rightarrow>
       (if MAX_CMD_STR \<le> length cmd_s then Inl AssertionFailed
        else case abbr of None \<Rightarrow> Inl NullPointer | Some abbr_s \<Rightarrow>
        (if MAX_ABBR_STR \<le> length abbr_s then Inl AssertionFailed
         else if MAX_HELP_STR \<le> length help_s then Inl AssertionFailed
         else
           let new_cmd = new_command cmd_s abbr help_s mn mx (UserFunc fn)
           in Inr (s\<lparr>cmd_list := (cmd_list s)\<lparr>head := head (cmd_list s) @ [new_cmd],
                         list_size := list_size (cmd_list s) + 1\<rparr>\<rparr>))))))"

subsection \<open>The line reader\<close>

text \<open>
  The buffer is a store of the bytes written, by offset from \<^verbatim>\<open>in_buffer\<close>;
  \<open>ptr\<close> is the offset \<^verbatim>\<open>ptr - in_buffer\<close> and \<^verbatim>\<open>max\<close> is at offset \<open>len\<close>.
  Each turn of the loop first stores the character read at \<open>ptr\<close> and only then tests
  it and \<^verbatim>\<open>ptr < max\<close>. The result is \<open>ptr\<close>, the store, the keystrokes left and
  the echo. \<^verbatim>\<open>input\<close> starts from the empty store, so that its result holds the
  bytes this call has written: every byte at an offset in the domain of the store was
  written, whether or not the offset is below \<open>len\<close>.
\<close>

type_synonym buffer = "nat \<rightharpoonup> char"

function input_loop ::
  "nat \<Rightarrow> int \<Rightarrow> buffer \<Rightarrow> char list \<Rightarrow> tty_out list \<Rightarrow>
   nat \<times> buffer \<times> char list \<times> tty_out list" where
  "input_loop ptr len buf ks scr =
     (let c = fst (GETCH ks); ks' = snd (GETCH ks); buf' = buf(ptr \<mapsto> c) in
      if c \<noteq> CR \<and> c \<noteq> LF \<and> int ptr < len then
        if c = BS \<or> c = DEL then
          if 0 < ptr then input_loop (ptr - 1) len buf' ks' (scr @ [Erase])
          else input_loop ptr len buf' ks' scr
        else input_loop (ptr + 1) len buf' ks' (scr @ [Putch c])
      else (ptr, buf', ks', scr))"
  by pat_completeness auto
termination
  by (relation "measure (\<lambda>(ptr, len, buf, ks, scr). 2 * length ks + nat (len - int ptr))")
     (auto simp: GETCH_def BS_def DEL_def split: list.splits)

declare input_loop.simps [simp del]

record input_result =
  in_buffer :: buffer
  ret :: int
  unread :: "char list"
  echoed :: "tty_out list"

definition input_finish :: "nat \<times> buffer \<times> char list \<times> tty_out list \<Rightarrow> input_result" where
  "input_finish r =
     (case r of (ptr, buf, ks, scr) \<Rightarrow>
        \<lparr>in_buffer = buf(ptr \<mapsto> NUL), ret = int ptr, unread = ks, echoed = scr\<rparr>)"

definition input :: "int \<Rightarrow> char list \<Rightarrow> input_result" where
  "input len ks = input_finish (input_loop 0 len Map.empty ks [])"

text \<open>
  The C string at offset \<open>i\<close> of a buffer: the bytes up to the first terminator,
  reading at most \<open>n\<close> of them.
\<close>

fun c_string :: "buffer \<Rightarrow> nat \<Rightarrow> nat \<Rightarrow> string" where
  "c_string buf i 0 = []"
| "c_string buf i (Suc n) =
     (case buf i of
        None \<Rightarrow> []
      | Some c \<Rightarrow> if c = NUL then [] else c # c_string buf (Suc i) n)"

text \<open>The string a call of \<^verbatim>\<open>input\<close> leaves in the buffer.\<close>

definition line :: "input_result \<Rightarrow> string" where
  "line r = c_string (in_buffer r) 0 (nat (ret r))"

subsection \<open>Lookup and the parse loop\<close>

fun find_command :: "command_t list \<Rightarrow> string option \<Rightarrow> error + command_t option" where
  "find_command [] name = Inr None"
| "find_command (c # cs) name =
     (case name of
        None \<Rightarrow> Inl NullPointer
      | Some n \<Rightarrow>
          if strcmp n (cmd_str c) = 0 \<or>
             (case abbr_str c of None \<Rightarrow> False | Some a \<Rightarrow> strcmp n a = 0)
          then Inr (Some c)
          else find_command cs name)"

lemma strtok_saved_shorter:
  assumes "strtok str delim = (Some t, saved)"
  shows "length saved < length str"
proof -
  let ?s1 = "dropWhile (\<lambda>c. c \<in> set delim) str"
  let ?s2 = "dropWhile (\<lambda>c. c \<notin> set delim) ?s1"
  have ne: "?s1 \<noteq> []"
    using assms unfolding strtok_def Let_def by (cases "?s1 = []") simp_all
  then have sv: "saved = drop 1 ?s2"
    using assms unfolding strtok_def Let_def by (auto split: if_splits)
  have a: "length ?s2 \<le> length ?s1"
    by (rule length_dropWhile_le)
  have b: "length ?s1 \<le> length str"
    by (rule length_dropWhile_le)
  have c: "0 < length ?s1"
    using ne by (rule iffD2 [OF length_greater_0_conv])
  have "length saved = length ?s2 - 1"
    unfolding sv by (simp only: length_drop)
  with a b c show ?thesis
    by linarith
qed

text \<open>
  The loop that fills \<^verbatim>\<open>argv\<close>: it asks \<^verbatim>\<open>strtok\<close> for the next token first and
  tests \<^verbatim>\<open>argc < MAX_ARGC\<close> second.
\<close>

function collect_args :: "string \<Rightarrow> string list \<Rightarrow> string list" where
  "collect_args saved argv =
     (case strtok saved '' .,'' of
        (None, _) \<Rightarrow> argv
      | (Some token, saved') \<Rightarrow>
          if int (length argv) < MAX_ARGC then collect_args saved' (argv @ [token])
          else argv)"
  by pat_completeness auto
termination
  by (relation "measure (\<lambda>(saved, argv). length saved)")
     (auto dest: strtok_saved_shorter [OF sym])

declare collect_args.simps [simp del]

text \<open>
  Calling through the function pointer; the call is logged first.
\<close>

definition call_func :: "cmd_func \<Rightarrow> int \<Rightarrow> string list \<Rightarrow> scp_state \<Rightarrow> int \<times> scp_state" where
  "call_func f argc argv s =
     (let s1 = s\<lparr>calls := calls s @ [(f, argc, argv)]\<rparr> in
      case f of
        HelpCmdFunc \<Rightarrow> help_cmd_func argc argv s1
      | EndCmdFunc \<Rightarrow> end_cmd_func argc argv s1
      | UserFunc fn \<Rightarrow> (fn argc argv, s1))"

text \<open>
  The part of the loop body of \<^verbatim>\<open>scp_parse\<close> that follows the test for an empty
  line, up to the message it prints: \<open>strbuff\<close> is the string in the buffer.
\<close>

definition dispatch :: "int \<Rightarrow> string \<Rightarrow> scp_state \<Rightarrow> error + scp_state" where
  "dispatch count strbuff s =
     (case strtok strbuff '' .,'' of (token, saved) \<Rightarrow>
        (case find_command (head (cmd_list s)) token of
           Inl e \<Rightarrow> Inl e
         | Inr (Some command) \<Rightarrow>
             let argv = collect_args saved [];
                 argc = int (length argv)
             in
               if argc < min_arg command then
                 Inr (printf [TooFew count (cmd_str command) (min_arg command)] s)
               else if max_arg command < argc then
                 Inr (printf [TooMany count (cmd_str command) (max_arg command)] s)
               else
                 (case call_func (func command) argc argv s of
                    (r, s') \<Rightarrow> Inr (printf [Result count r] s'))
         | Inr None \<Rightarrow> Inr (printf [Unknown count token] s)))"

text \<open>
  One turn of the loop of \<^verbatim>\<open>scp_parse\<close>: the new value of \<open>count\<close> and the new
  state. \<^verbatim>\<open>strbuff\<close> is an array of \<open>MAX_INPUT_BUFFER\<close> bytes, at the offsets below
  \<open>MAX_INPUT_BUFFER\<close>. When \<^verbatim>\<open>input\<close> has written the byte at offset
  \<open>MAX_INPUT_BUFFER\<close> it has written outside the array: the behaviour of the program is
  undefined from there, and the turn is the failure \<open>BufferOverflow\<close>. (\<^verbatim>\<open>input\<close>
  writes at no offset above \<open>len\<close>, see \<open>input_bounds\<close> below.) Otherwise the string
  in \<^verbatim>\<open>strbuff\<close> is read from its start; \<^verbatim>\<open>input\<close> has put the terminator at
  offset \<open>length\<close>, inside the array, so what earlier turns left in the buffer is not
  read.
\<close>

definition scp_parse_body :: "int \<Rightarrow> scp_state \<Rightarrow> error + int \<times> scp_state" where
  "scp_parse_body count s =
     (let s1 = printf [Prompt count] s;
          r = input MAX_INPUT_BUFFER (stdin s1)
      in
        if in_buffer r (nat MAX_INPUT_BUFFER) \<noteq> None then Inl BufferOverflow
        else
          let s2 = printf (echoed r) (s1\<lparr>stdin := unread r\<rparr>);
              s3 = printf [Newline] s2
          in
            if ret r = 0 then Inr (count, s3)
            else
              (case dispatch count (line r) s3 of
                 Inl e \<Rightarrow> Inl e
               | Inr s4 \<Rightarrow> Inr (count + 1, printf [Newline] s4)))"

text \<open>
  The loop, with fuel: \<open>None\<close> when the fuel runs out before the loop is left,
  \<open>Some (Inl e)\<close> when a turn fails, \<open>Some (Inr s)\<close> when the loop is left in \<open>s\<close>.
\<close>

fun scp_parse_loop :: "nat \<Rightarrow> int \<Rightarrow> scp_state \<Rightarrow> (error + scp_state) option" where
  "scp_parse_loop n count s =
     (if end_parsing s \<noteq> 0 then Some (Inr s)
      else case n of
        0 \<Rightarrow> None
      | Suc m \<Rightarrow>
          (case scp_parse_body count s of
             Inl e \<Rightarrow> Some (Inl e)
           | Inr (count', s') \<Rightarrow> scp_parse_loop m count' s'))"

declare scp_parse_loop.simps [simp del]

definition scp_parse :: "nat \<Rightarrow> scp_state \<Rightarrow> (error + scp_state) option" where
  "scp_parse n s = scp_parse_loop n 1 (snd (help_cmd_func 0 [] s))"

subsection \<open>The handlers of parser\_example.c\<close>

text \<open>
  \<^verbatim>\<open>atoi\<close>: white space is skipped, then an optional sign and the decimal digits
  that follow are read; the value is not taken to overflow.
\<close>

definition isspace :: "char \<Rightarrow> bool" where
  "isspace c = (c = CHR '' '' \<or> (9 \<le> (of_char c :: nat) \<and> (of_char c :: nat) \<le> 13))"

fun atoi_digits :: "int \<Rightarrow> string \<Rightarrow> int" where
  "atoi_digits acc [] = acc"
| "atoi_digits acc (c # cs) =
     (if 48 \<le> (of_char c :: nat) \<and> (of_char c :: nat) \<le> 57
      then atoi_digits (10 * acc + (int (of_char c) - 48)) cs
      else acc)"

definition atoi :: "string \<Rightarrow> int" where
  "atoi str =
     (case dropWhile isspace str of
        [] \<Rightarrow> 0
      | c # cs \<Rightarrow>
          if c = CHR ''-'' then - atoi_digits 0 cs
          else if c = CHR ''+'' then atoi_digits 0 cs
          else atoi_digits 0 (c # cs))"

text \<open>
  \<^verbatim>\<open>add_cmd_func\<close> and \<^verbatim>\<open>sub_cmd_func\<close> read \<open>argv[0]\<close> to \<open>argv[argc - 1]\<close>;
  the parser passes as many strings as \<open>argc\<close> counts.
\<close>

definition add_cmd_func :: "int \<Rightarrow> string list \<Rightarrow> int" where
  "add_cmd_func argc argv = sum_list (map atoi (take (nat argc) argv))"

definition sub_cmd_func :: "int \<Rightarrow> string list \<Rightarrow> int" where
  "sub_cmd_func argc argv =
     (if 1 \<le> argc then
        (case take (nat argc) argv of
           [] \<Rightarrow> 0
         | a # as \<Rightarrow> atoi a - sum_list (map atoi as))
      else 0)"

subsection \<open>Notions used to state the properties\<close>

text \<open>
  A descriptor answers to a token when its name or its abbreviation is the token.
\<close>

definition names_token :: "command_t \<Rightarrow> string \<Rightarrow> bool" where
  "names_token c tok = (cmd_str c = tok \<or> abbr_str c = Some tok)"

text \<open>The two nodes that \<^verbatim>\<open>scp_init\<close> allocates.\<close>

definition help_cmd :: command_t where
  "help_cmd = new_command ''help'' (Some ''h'') ''Lists all commands available.'' 0 0 HelpCmdFunc"

definition end_cmd :: command_t where
  "end_cmd = new_command ''end'' (Some ''end'') ''Exit the parser.'' 0 0 EndCmdFunc"

text \<open>A node linked at the end of the list, the size counted up.\<close>

definition append_command :: "command_t \<Rightarrow> scp_state \<Rightarrow> scp_state" where
  "append_command c s =
     s\<lparr>cmd_list := (cmd_list s)\<lparr>head := head (cmd_list s) @ [c],
                                 list_size := list_size (cmd_list s) + 1\<rparr>\<rparr>"

text \<open>
  The states a program can be in when it calls \<^verbatim>\<open>scp_parse\<close>: it has called
  \<^verbatim>\<open>scp_init(d)\<close> at startup and then \<^verbatim>\<open>scp_add_command\<close> any number of times,
  every call returning.
\<close>

inductive configured :: "int \<Rightarrow> scp_state \<Rightarrow> bool" for d :: int where
  init: "scp_init d (startup ks) = Inr s \<Longrightarrow> configured d s"
| add: "configured d s \<Longrightarrow> scp_add_command cmd abbr hlp mn mx f s = Inr s' \<Longrightarrow>
        configured d s'"

text \<open>
  All the tokens of a string, \<^verbatim>\<open>strtok\<close> called until it returns \<^verbatim>\<open>NULL\<close>:
  the argument tokens a line carries, however many the loop of \<open>collect_args\<close> takes.
\<close>

function tokens :: "string \<Rightarrow> string list" where
  "tokens saved =
     (case strtok saved '' .,'' of
        (None, _) \<Rightarrow> []
      | (Some token, saved') \<Rightarrow> token # tokens saved')"
  by pat_completeness auto
termination
  by (relation "measure length") (auto dest: strtok_saved_shorter [OF sym])

declare tokens.simps [simp del]

text \<open>
  The state of a turn of the loop once the line \<open>r\<close> is read: prompt, echo and
  newline printed, the keystrokes of the line consumed.
\<close>

definition after_input :: "int \<Rightarrow> input_result \<Rightarrow> scp_state \<Rightarrow> scp_state" where
  "after_input count r s =
     printf [Newline] (printf (echoed r) ((printf [Prompt count] s)\<lparr>stdin := unread r\<rparr>))"

text \<open>The listing of a command list, as the \<open>help\<close> command prints it.\<close>

definition help_lines :: "command_t list \<Rightarrow> tty_out list" where
  "help_lines cmds =
     HelpHeader # map (\<lambda>c. HelpLine (cmd_str c) (abbr_str c) (help_str c)) cmds @ [Newline]"

text \<open>
  The state \<open>s\<close> with a turn of the loop added to it, written out field by field: the
  keystrokes of the line \<open>r\<close> are consumed, and the terminal shows, after what it
  showed, the prompt, the echo of the line, the newline and then \<open>msgs\<close>. The other
  fields are those of \<open>s\<close>.
\<close>

definition turn_end :: "int \<Rightarrow> input_result \<Rightarrow> tty_out list \<Rightarrow> scp_state \<Rightarrow> scp_state" where
  "turn_end count r msgs s =
     s\<lparr>stdin := unread r,
       stdout := stdout s @ [Prompt count] @ echoed r @ [Newline] @ msgs\<rparr>"

subsection \<open>Example data\<close>

text \<open>
  A command list as \<^verbatim>\<open>parser_example.c\<close> builds it (the built-in commands, then
  \<open>add\<close>), followed by a command with no abbreviation and by one whose name is the
  abbreviation of an earlier command.
\<close>

definition ex_cmds :: "command_t list" where
  "ex_cmds =
     [new_command ''help'' (Some ''h'') ''Lists all commands available.'' 0 0 HelpCmdFunc,
      new_command ''end'' (Some ''end'') ''Exit the parser.'' 0 0 EndCmdFunc,
      new_command ''add'' (Some ''a'') ''Add <P1> to <P2> [... to <P5>]'' 2 5
        (UserFunc (\<lambda>argc argv. argc)),
      new_command ''led'' None ''Toggle the LED'' 0 0 (UserFunc (\<lambda>argc argv. 1)),
      new_command ''a'' (Some ''add'') ''Shadowed'' 0 0 (UserFunc (\<lambda>argc argv. 2))]"

text \<open>A handler that returns its argument count, and two commands that use it.\<close>

definition ex_handler :: "int \<Rightarrow> string list \<Rightarrow> int" where
  "ex_handler argc argv = argc"

definition ex_add :: command_t where
  "ex_add = new_command ''add'' (Some ''a'') ''Add <P1> to <P2> [... to <P5>]'' 2 5
              (UserFunc ex_handler)"

definition ex_sum :: command_t where
  "ex_sum = new_command ''sum'' (Some ''s'') ''Sum of up to eight integers'' 0 8
              (UserFunc ex_handler)"

text \<open>
  The state after \<^verbatim>\<open>scp_init(0)\<close> and the registration of \<open>add\<close> and \<open>sum\<close>,
  and the state after \<^verbatim>\<open>scp_init(1)\<close> and the registration of \<open>add\<close>, with
  \<open>ks\<close> still to be typed.
\<close>

definition ex_state :: "char list \<Rightarrow> scp_state" where
  "ex_state ks =
     \<lparr>cmd_list = \<lparr>head = [help_cmd, end_cmd, ex_add, ex_sum], list_size = 4\<rparr>,
      end_parsing = 0, stdin = ks, stdout = [], calls = []\<rparr>"

definition ex_state_no_end :: "char list \<Rightarrow> scp_state" where
  "ex_state_no_end ks =
     \<lparr>cmd_list = \<lparr>head = [help_cmd, ex_add], list_size = 2\<rparr>,
      end_parsing = 0, stdin = ks, stdout = [], calls = []\<rparr>"

text \<open>
  The commands that \<open>main\<close> of \<^verbatim>\<open>parser_example.c\<close> registers, and the state in
  which it calls \<^verbatim>\<open>scp_parse\<close>, with \<open>ks\<close> still to be typed.
\<close>

definition main_add :: command_t where
  "main_add = new_command ''add'' (Some ''a'') ''Add <P1> to <P2> [... to <P5>]'' 2 5
                (UserFunc add_cmd_func)"

definition main_sub :: command_t where
  "main_sub = new_command ''sub'' (Some ''s'') ''Subtract <P2> from <P1>'' 2 2
                (UserFunc sub_cmd_func)"

definition main_state :: "char list \<Rightarrow> scp_state" where
  "main_state ks =
     \<lparr>cmd_list = \<lparr>head = [help_cmd, end_cmd, main_add, main_sub], list_size = 4\<rparr>,
      end_parsing = 0, stdin = ks, stdout = [], calls = []\<rparr>"

text \<open>
  The same program with two more registrations: \<open>total\<close> takes up to 8 arguments,
  \<open>octet\<close> takes 7 or 8.
\<close>

definition ex_total :: command_t where
  "ex_total = new_command ''total'' (Some ''t'') ''Add up to eight integers'' 0 8
                (UserFunc add_cmd_func)"

definition ex_octet :: command_t where
  "ex_octet = new_command ''octet'' (Some ''o'') ''Add seven or eight integers'' 7 8
                (UserFunc add_cmd_func)"

definition wide_state :: "char list \<Rightarrow> scp_state" where
  "wide_state ks =
     \<lparr>cmd_list =
        \<lparr>head = [help_cmd, end_cmd, main_add, main_sub, ex_total, ex_octet], list_size = 6\<rparr>,
      end_parsing = 0, stdin = ks, stdout = [], calls = []\<rparr>"

section \<open>Auxiliary facts\<close>

subsection \<open>Lookup\<close>

lemma strcmp_eq: "strcmp a b = 0 \<longleftrightarrow> a = b"
  by (induction a b rule: strcmp.induct) auto

lemma find_command_Cons:
  "find_command (c # cs) (Some tok) =
     (if names_token c tok then Inr (Some c) else find_command cs (Some tok))"
  by (auto simp: names_token_def strcmp_eq split: option.splits)

lemma find_command_skip:
  "\<forall>d\<in>set pre. \<not> names_token d tok \<Longrightarrow>
   find_command (pre @ cs) (Some tok) = find_command cs (Some tok)"
  by (induction pre) (simp_all add: find_command_Cons del: find_command.simps(2))

lemma find_command_None:
  "\<forall>d\<in>set cmds. \<not> names_token d tok \<Longrightarrow> find_command cmds (Some tok) = Inr None"
  using find_command_skip [of cmds tok "[]"] by simp

lemma find_command_SomeD:
  "find_command cmds (Some tok) = Inr (Some c) \<Longrightarrow> c \<in> set cmds \<and> names_token c tok"
  by (induction cmds)
     (auto simp add: find_command_Cons simp del: find_command.simps(2) split: if_splits)

lemma find_command_finds:
  "d \<in> set cmds \<Longrightarrow> names_token d tok \<Longrightarrow>
   \<exists>c. find_command cmds (Some tok) = Inr (Some c) \<and> names_token c tok"
  by (induction cmds)
     (auto simp add: find_command_Cons simp del: find_command.simps(2))

lemma find_command_Inr_Some:
  "find_command cmds token = Inr (Some c) \<Longrightarrow> \<exists>tok. token = Some tok \<and> c \<in> set cmds"
proof (cases token)
  case None
  assume "find_command cmds token = Inr (Some c)"
  with None show ?thesis by (cases cmds) simp_all
next
  case (Some tok)
  assume "find_command cmds token = Inr (Some c)"
  with Some find_command_SomeD [of cmds tok c] show ?thesis by simp
qed

subsection \<open>Registration\<close>

lemma scp_init_head:
  "scp_init d (startup ks) = Inr s \<Longrightarrow>
   head (cmd_list s) = (if d = 0 then [help_cmd, end_cmd] else [help_cmd]) \<and>
   end_parsing s = 0 \<and> stdin s = ks \<and> calls s = [] \<and> stdout s = []"
  by (auto simp: scp_init_def startup_def help_cmd_def end_cmd_def Let_def split: if_splits)

lemma scp_add_command_head:
  "scp_add_command cmd abbr hlp mn mx f s = Inr s' \<Longrightarrow>
   (\<exists>c. head (cmd_list s') = head (cmd_list s) @ [c] \<and> min_arg c \<le> max_arg c \<and>
        func c \<noteq> EndCmdFunc) \<and>
   end_parsing s' = end_parsing s \<and> stdin s' = stdin s \<and> calls s' = calls s \<and>
   stdout s' = stdout s"
  by (auto simp: scp_add_command_def new_command_def Let_def split: if_splits option.splits)


lemma configured_end_parsing: "configured d s \<Longrightarrow> end_parsing s = 0"
proof (induction rule: configured.induct)
  case (init ks s)
  then show ?case
    by (auto dest!: scp_init_head)
next
  case (add s cmd abbr hlp mn mx f s')
  from scp_add_command_head [OF add.hyps(2)] add.IH show ?case
    by auto
qed

lemma configured_enabled:
  "configured 0 s \<Longrightarrow> \<exists>users. head (cmd_list s) = help_cmd # end_cmd # users"
proof (induction rule: configured.induct)
  case (init ks s)
  then show ?case
    by (auto dest!: scp_init_head)
next
  case (add s cmd abbr hlp mn mx f s')
  from scp_add_command_head [OF add.hyps(2)] add.IH show ?case
    by auto
qed

lemma configured_disabled:
  "configured d s \<Longrightarrow> d \<noteq> 0 \<Longrightarrow> \<forall>c\<in>set (head (cmd_list s)). func c \<noteq> EndCmdFunc"
proof (induction rule: configured.induct)
  case (init ks s)
  then show ?case
    by (auto dest!: scp_init_head simp: help_cmd_def new_command_def)
next
  case (add s cmd abbr hlp mn mx f s')
  from scp_add_command_head [OF add.hyps(2)] add.IH add.prems show ?case
    by auto
qed

lemma scp_add_command_user:
  "scp_add_command cmd abbr hlp mn mx f s = Inr s' \<Longrightarrow>
   \<exists>c fn. head (cmd_list s') = head (cmd_list s) @ [c] \<and> func c = UserFunc fn"
  by (auto simp: scp_add_command_def new_command_def Let_def split: if_splits option.splits)

lemma configured_funcs:
  "configured d s \<Longrightarrow>
   \<forall>c\<in>set (head (cmd_list s)). max_arg c = 0 \<or> (\<exists>fn. func c = UserFunc fn)"
proof (induction rule: configured.induct)
  case (init ks s)
  then show ?case
    by (auto dest!: scp_init_head simp: help_cmd_def end_cmd_def new_command_def split: if_splits)
next
  case (add s cmd abbr hlp mn mx f s')
  from scp_add_command_user [OF add.hyps(2)] add.IH show ?case
    by auto
qed

subsection \<open>The line reader\<close>

lemma GETCH_Cons: "GETCH (k # ks) = (k, ks)"
  by (simp add: GETCH_def)

lemma input_loop_stop:
  "fst (GETCH ks) = CR \<or> fst (GETCH ks) = LF \<or> len \<le> int ptr \<Longrightarrow>
   input_loop ptr len buf ks scr = (ptr, buf(ptr \<mapsto> fst (GETCH ks)), snd (GETCH ks), scr)"
  by (subst input_loop.simps) (auto simp: Let_def)

lemma input_loop_store:
  "fst (GETCH ks) \<noteq> CR \<Longrightarrow> fst (GETCH ks) \<noteq> LF \<Longrightarrow> int ptr < len \<Longrightarrow>
   fst (GETCH ks) \<noteq> BS \<Longrightarrow> fst (GETCH ks) \<noteq> DEL \<Longrightarrow>
   input_loop ptr len buf ks scr =
     input_loop (ptr + 1) len (buf(ptr \<mapsto> fst (GETCH ks))) (snd (GETCH ks))
       (scr @ [Putch (fst (GETCH ks))])"
  by (subst input_loop.simps) (simp add: Let_def)

lemma input_loop_erase:
  "fst (GETCH ks) = BS \<or> fst (GETCH ks) = DEL \<Longrightarrow> int ptr < len \<Longrightarrow> 0 < ptr \<Longrightarrow>
   input_loop ptr len buf ks scr =
     input_loop (ptr - 1) len (buf(ptr \<mapsto> fst (GETCH ks))) (snd (GETCH ks)) (scr @ [Erase])"
  by (subst input_loop.simps) (auto simp: Let_def BS_def DEL_def CR_def LF_def)

lemma input_loop_erase_nothing:
  "fst (GETCH ks) = BS \<or> fst (GETCH ks) = DEL \<Longrightarrow> 0 < len \<Longrightarrow>
   input_loop 0 len buf ks scr =
     input_loop 0 len (buf(0 \<mapsto> fst (GETCH ks))) (snd (GETCH ks)) scr"
  by (subst input_loop.simps) (auto simp: Let_def BS_def DEL_def CR_def LF_def)

lemma c_string_cong:
  "\<forall>j. i \<le> j \<and> j < i + n \<longrightarrow> b1 j = b2 j \<Longrightarrow> c_string b1 i n = c_string b2 i n"
proof (induction n arbitrary: i)
  case 0
  show ?case by simp
next
  case (Suc n)
  have "b1 i = b2 i" using Suc.prems by simp
  moreover have "c_string b1 (Suc i) n = c_string b2 (Suc i) n"
    using Suc.prems by (intro Suc.IH) simp
  ultimately show ?case by (simp split: option.splits)
qed

lemma input_loop_agree:
  "\<forall>i<ptr. buf1 i = buf2 i \<Longrightarrow>
   \<exists>p b1 b2 k s1 s2.
     input_loop ptr len buf1 ks scr1 = (p, b1, k, s1) \<and>
     input_loop ptr len buf2 ks scr2 = (p, b2, k, s2) \<and> (\<forall>i\<le>p. b1 i = b2 i)"
proof (induction ptr len buf1 ks scr1 arbitrary: buf2 scr2 rule: input_loop.induct)
  case (1 ptr len buf ks scr)
  let ?c = "fst (GETCH ks)"
  have agree: "\<forall>i\<le>ptr. (buf(ptr \<mapsto> ?c)) i = (buf2(ptr \<mapsto> ?c)) i"
    using "1.prems" by simp
  show ?case
  proof (cases "?c \<noteq> CR \<and> ?c \<noteq> LF \<and> int ptr < len")
    case False
    then have stop: "?c = CR \<or> ?c = LF \<or> len \<le> int ptr"
      by auto
    show ?thesis
      unfolding input_loop_stop [OF stop] using agree by blast
  next
    case run: True
    show ?thesis
    proof (cases "?c = BS \<or> ?c = DEL")
      case False
      have ag: "\<forall>i<ptr + 1. (buf(ptr \<mapsto> ?c)) i = (buf2(ptr \<mapsto> ?c)) i"
        using agree by simp
      have st: "input_loop ptr len b ks s =
          input_loop (ptr + 1) len (b(ptr \<mapsto> ?c)) (snd (GETCH ks)) (s @ [Putch ?c])" for b s
        using run False by (intro input_loop_store) simp_all
      show ?thesis
        unfolding st by (rule "1.IH"(3) [OF refl refl refl run False ag])
    next
      case erase: True
      show ?thesis
      proof (cases "0 < ptr")
        case True
        have ag: "\<forall>i<ptr - 1. (buf(ptr \<mapsto> ?c)) i = (buf2(ptr \<mapsto> ?c)) i"
          using agree by simp
        have st: "input_loop ptr len b ks s =
            input_loop (ptr - 1) len (b(ptr \<mapsto> ?c)) (snd (GETCH ks)) (s @ [Erase])" for b s
          using run erase True by (intro input_loop_erase) simp_all
        show ?thesis
          unfolding st by (rule "1.IH"(1) [OF refl refl refl run erase True ag])
      next
        case False
        have ag: "\<forall>i<ptr. (buf(ptr \<mapsto> ?c)) i = (buf2(ptr \<mapsto> ?c)) i"
          using False by simp
        have st: "input_loop ptr len b ks s =
            input_loop ptr len (b(ptr \<mapsto> ?c)) (snd (GETCH ks)) s" for b s
          using run erase False input_loop_erase_nothing [of ks len b s] by simp
        show ?thesis
          by (subst (1 2) st) (rule "1.IH"(2) [OF refl refl refl run erase False ag])
      qed
    qed
  qed
qed

lemma input_loop_type_then_erase:
  assumes "c \<noteq> BS \<and> c \<noteq> DEL \<and> c \<noteq> CR \<and> c \<noteq> LF" and "b = BS \<or> b = DEL"
    and "int ptr + 1 < len"
  shows "\<exists>p b1 b2 k s1 s2.
     input_loop ptr len buf (c # b # ks) scr = (p, b1, k, s1) \<and>
     input_loop ptr len buf ks scr = (p, b2, k, s2) \<and> (\<forall>i\<le>p. b1 i = b2 i)"
proof -
  have 1: "input_loop ptr len buf (c # b # ks) scr =
      input_loop (ptr + 1) len (buf(ptr \<mapsto> c)) (b # ks) (scr @ [Putch c])"
    using assms(1,3) by (subst input_loop_store) (simp_all add: GETCH_Cons)
  have 2: "input_loop (ptr + 1) len (buf(ptr \<mapsto> c)) (b # ks) (scr @ [Putch c]) =
      input_loop ptr len (buf(ptr \<mapsto> c, ptr + 1 \<mapsto> b)) ks ((scr @ [Putch c]) @ [Erase])"
    using assms(2,3) by (subst input_loop_erase) (simp_all add: GETCH_Cons)
  have "\<forall>i<ptr. (buf(ptr \<mapsto> c, ptr + 1 \<mapsto> b)) i = buf i"
    by simp
  from input_loop_agree [OF this, of len ks "(scr @ [Putch c]) @ [Erase]" scr]
  show ?thesis
    unfolding 1 2 .
qed

lemma input_loop_ordinary:
  "\<forall>c\<in>set l. c \<noteq> CR \<and> c \<noteq> LF \<and> c \<noteq> BS \<and> c \<noteq> DEL \<Longrightarrow> int (ptr + length l) \<le> len \<Longrightarrow>
   \<exists>buf'. input_loop ptr len buf (l @ ks) scr =
             input_loop (ptr + length l) len buf' ks (scr @ map Putch l) \<and>
          (\<forall>i<length l. buf' (ptr + i) = Some (l ! i)) \<and>
          (\<forall>j<ptr. buf' j = buf j) \<and>
          dom buf' = dom buf \<union> {ptr..<ptr + length l}"
proof (induction l arbitrary: ptr buf scr)
  case Nil
  have "input_loop ptr len buf ([] @ ks) scr = input_loop (ptr + length []) len buf ks (scr @ map Putch [])"
    by simp
  then show ?case by auto
next
  case (Cons c l)
  have step: "input_loop ptr len buf ((c # l) @ ks) scr =
      input_loop (ptr + 1) len (buf(ptr \<mapsto> c)) (l @ ks) (scr @ [Putch c])"
    using Cons.prems by (subst input_loop_store) (simp_all add: GETCH_Cons)
  from Cons.prems have "\<forall>c\<in>set l. c \<noteq> CR \<and> c \<noteq> LF \<and> c \<noteq> BS \<and> c \<noteq> DEL"
    and "int (ptr + 1 + length l) \<le> len"
    by simp_all
  from Cons.IH [OF this, of "buf(ptr \<mapsto> c)" "scr @ [Putch c]"]
  obtain buf' where
    run: "input_loop (ptr + 1) len (buf(ptr \<mapsto> c)) (l @ ks) (scr @ [Putch c]) =
          input_loop (ptr + 1 + length l) len buf' ks ((scr @ [Putch c]) @ map Putch l)"
    and new: "\<forall>i<length l. buf' (ptr + 1 + i) = Some (l ! i)"
    and old: "\<forall>j<ptr + 1. buf' j = (buf(ptr \<mapsto> c)) j"
    and dm: "dom buf' = dom (buf(ptr \<mapsto> c)) \<union> {ptr + 1..<ptr + 1 + length l}"
    by blast
  have "\<forall>i<length (c # l). buf' (ptr + i) = Some ((c # l) ! i)"
  proof (intro allI impI)
    fix i assume "i < length (c # l)"
    then show "buf' (ptr + i) = Some ((c # l) ! i)"
      using new old by (cases i) simp_all
  qed
  moreover have "\<forall>j<ptr. buf' j = buf j"
    using old by simp
  moreover have "dom buf' = dom buf \<union> {ptr..<ptr + length (c # l)}"
    unfolding dm by auto
  moreover have "input_loop ptr len buf ((c # l) @ ks) scr =
      input_loop (ptr + length (c # l)) len buf' ks (scr @ map Putch (c # l))"
    unfolding step run by simp
  ultimately show ?case
    by blast
qed

lemma c_string_read:
  "\<forall>i<length l. buf (k + i) = Some (l ! i) \<Longrightarrow> NUL \<notin> set l \<Longrightarrow> c_string buf k (length l) = l"
proof (induction l arbitrary: k)
  case Nil
  show ?case by simp
next
  case (Cons c l)
  from Cons.prems(1) have "buf k = Some c"
    by (auto dest: spec [of _ 0])
  moreover have "\<forall>i<length l. buf (Suc k + i) = Some (l ! i)"
    using Cons.prems(1) by (auto dest: spec [of _ "Suc i" for i])
  then have "c_string buf (Suc k) (length l) = l"
    using Cons.prems(2) by (intro Cons.IH) simp_all
  ultimately show ?case
    using Cons.prems(2) by auto
qed

lemma input_ordinary_line:
  assumes "\<forall>c\<in>set l. c \<noteq> CR \<and> c \<noteq> LF \<and> c \<noteq> BS \<and> c \<noteq> DEL"
    and "int (length l) \<le> len" and "e = CR \<or> e = LF"
  shows "ret (input len (l @ e # ks)) = int (length l)
    \<and> unread (input len (l @ e # ks)) = ks
    \<and> echoed (input len (l @ e # ks)) = map Putch l
    \<and> dom (in_buffer (input len (l @ e # ks))) = {0..length l}
    \<and> (NUL \<notin> set l \<longrightarrow> line (input len (l @ e # ks)) = l)"
proof -
  from input_loop_ordinary [OF assms(1), of 0 len Map.empty "e # ks" "[]"] assms(2)
  obtain buf' where
    run: "input_loop 0 len Map.empty (l @ e # ks) [] =
          input_loop (length l) len buf' (e # ks) (map Putch l)"
    and new: "\<forall>i<length l. buf' i = Some (l ! i)"
    and dm: "dom buf' = {0..<length l}"
    by auto
  have stop: "input_loop (length l) len buf' (e # ks) (map Putch l) =
      (length l, buf'(length l \<mapsto> e), ks, map Putch l)"
    using assms(3) by (subst input_loop_stop) (auto simp: GETCH_Cons)
  have res: "input len (l @ e # ks) =
      \<lparr>in_buffer = buf'(length l \<mapsto> NUL), ret = int (length l), unread = ks,
       echoed = map Putch l\<rparr>"
    by (simp add: input_def run stop input_finish_def)
  have "c_string (buf'(length l \<mapsto> NUL)) 0 (length l) = l" if "NUL \<notin> set l"
    using new that by (intro c_string_read) simp_all
  moreover have "dom (buf'(length l \<mapsto> NUL)) = {0..length l}"
    using dm by auto
  ultimately show ?thesis
    unfolding res by (simp add: line_def)
qed

lemma input_loop_bounds:
  "int ptr \<le> len \<Longrightarrow>
   \<exists>p b k s. input_loop ptr len buf ks scr = (p, b, k, s) \<and> int p \<le> len \<and>
     dom b \<subseteq> dom buf \<union> {0..nat len} \<and>
     (int p < len \<and> nat len \<notin> dom buf \<longrightarrow> nat len \<notin> dom b)"
proof (induction ptr len buf ks scr rule: input_loop.induct)
  case (1 ptr len buf ks scr)
  let ?c = "fst (GETCH ks)"
  let ?buf = "buf(ptr \<mapsto> ?c)"
  have dm: "dom ?buf \<subseteq> dom buf \<union> {0..nat len}"
    using "1.prems" by auto
  have top: "nat len \<notin> dom ?buf" if "int ptr < len" "nat len \<notin> dom buf"
    using that by auto
  show ?case
  proof (cases "?c \<noteq> CR \<and> ?c \<noteq> LF \<and> int ptr < len")
    case False
    then have stop: "?c = CR \<or> ?c = LF \<or> len \<le> int ptr"
      by auto
    show ?thesis
      unfolding input_loop_stop [OF stop] using "1.prems" dm top by auto
  next
    case run: True
    have rec: "\<exists>p b k s. input_loop q len ?buf (snd (GETCH ks)) t = (p, b, k, s) \<and> int p \<le> len \<and>
        dom b \<subseteq> dom buf \<union> {0..nat len} \<and>
        (int p < len \<and> nat len \<notin> dom buf \<longrightarrow> nat len \<notin> dom b)"
      if ih: "\<exists>p b k s. input_loop q len ?buf (snd (GETCH ks)) t = (p, b, k, s) \<and> int p \<le> len \<and>
        dom b \<subseteq> dom ?buf \<union> {0..nat len} \<and>
        (int p < len \<and> nat len \<notin> dom ?buf \<longrightarrow> nat len \<notin> dom b)" for q t
    proof -
      from ih obtain p b k s where
        eq: "input_loop q len ?buf (snd (GETCH ks)) t = (p, b, k, s)" and le: "int p \<le> len" and
        sub: "dom b \<subseteq> dom ?buf \<union> {0..nat len}" and
        tp: "int p < len \<and> nat len \<notin> dom ?buf \<longrightarrow> nat len \<notin> dom b"
        by blast
      from sub dm have "dom b \<subseteq> dom buf \<union> {0..nat len}"
        by blast
      moreover from tp top run have "int p < len \<and> nat len \<notin> dom buf \<longrightarrow> nat len \<notin> dom b"
        by blast
      ultimately show ?thesis
        using eq le by blast
    qed
    show ?thesis
    proof (cases "?c = BS \<or> ?c = DEL")
      case False
      have st: "input_loop ptr len buf ks scr =
          input_loop (ptr + 1) len ?buf (snd (GETCH ks)) (scr @ [Putch ?c])"
        using run False by (intro input_loop_store) simp_all
      from run have "int (ptr + 1) \<le> len"
        by simp
      from "1.IH"(3) [OF refl refl refl run False this] show ?thesis
        unfolding st by (rule rec)
    next
      case erase: True
      show ?thesis
      proof (cases "0 < ptr")
        case True
        have st: "input_loop ptr len buf ks scr =
            input_loop (ptr - 1) len ?buf (snd (GETCH ks)) (scr @ [Erase])"
          using run erase True by (intro input_loop_erase) simp_all
        from run have "int (ptr - 1) \<le> len"
          by arith
        from "1.IH"(1) [OF refl refl refl run erase True this] show ?thesis
          unfolding st by (rule rec)
      next
        case False
        have st: "input_loop ptr len buf ks scr = input_loop ptr len ?buf (snd (GETCH ks)) scr"
          using run erase False input_loop_erase_nothing [of ks len buf scr] by simp
        from "1.IH"(2) [OF refl refl refl run erase False "1.prems"] show ?thesis
          by (subst st) (rule rec)
      qed
    qed
  qed
qed

text \<open>
  The bytes \<open>input\<close> writes: at no offset above \<open>len\<close>; at offset \<open>len\<close>, one past a
  buffer of \<open>len\<close> bytes, exactly when it returns \<open>len\<close>.
\<close>

lemma input_bounds:
  assumes "0 \<le> len"
  shows "0 \<le> ret (input len ks) \<and> ret (input len ks) \<le> len
    \<and> dom (in_buffer (input len ks)) \<subseteq> {0..nat len}
    \<and> (in_buffer (input len ks) (nat len) \<noteq> None \<longleftrightarrow> ret (input len ks) = len)"
proof -
  from assms have "int 0 \<le> len"
    by simp
  from input_loop_bounds [OF this, of Map.empty ks "[]"]
  obtain p b k s where eq: "input_loop 0 len Map.empty ks [] = (p, b, k, s)"
    and le: "int p \<le> len" and sub': "dom b \<subseteq> dom (Map.empty :: buffer) \<union> {0..nat len}"
    and tp': "int p < len \<and> nat len \<notin> dom (Map.empty :: buffer) \<longrightarrow> nat len \<notin> dom b"
    by blast
  from sub' have sub: "dom b \<subseteq> {0..nat len}"
    by simp
  from tp' have tp: "int p < len \<longrightarrow> nat len \<notin> dom b"
    by simp
  have res: "input len ks = \<lparr>in_buffer = b(p \<mapsto> NUL), ret = int p, unread = k, echoed = s\<rparr>"
    by (simp add: input_def eq input_finish_def)
  from le have "p \<le> nat len"
    by simp
  with sub have "dom (b(p \<mapsto> NUL)) \<subseteq> {0..nat len}"
    by auto
  moreover have "(b(p \<mapsto> NUL)) (nat len) \<noteq> None \<longleftrightarrow> int p = len"
  proof (cases "int p = len")
    case True
    then have "p = nat len"
      by simp
    with True show ?thesis
      by simp
  next
    case False
    with le have less: "int p < len"
      by simp
    with tp have "b (nat len) = None"
      by (simp add: domIff)
    moreover from less have "p \<noteq> nat len"
      by linarith
    ultimately show ?thesis
      using False by simp
  qed
  ultimately show ?thesis
    using le by (simp add: res)
qed

lemma input_empty_line:
  assumes "e = CR \<or> e = LF"
  shows "input len (e # ks) = \<lparr>in_buffer = [0 \<mapsto> NUL], ret = 0, unread = ks, echoed = []\<rparr>"
proof -
  have "input_loop 0 len Map.empty (e # ks) [] = (0, [0 \<mapsto> e], ks, [])"
    using assms by (subst input_loop_stop) (auto simp: GETCH_Cons)
  then show ?thesis
    by (simp add: input_def input_finish_def)
qed

subsection \<open>The parse loop\<close>

lemma collect_args_take:
  "length argv \<le> 6 \<Longrightarrow>
   collect_args saved argv = argv @ take (6 - length argv) (tokens saved)"
proof (induction saved argv rule: collect_args.induct)
  case (1 saved argv)
  show ?case
  proof (cases "strtok saved '' .,''")
    case (Pair tok saved')
    show ?thesis
    proof (cases tok)
      case None
      with Pair show ?thesis
        by (subst collect_args.simps, subst tokens.simps) simp
    next
      case (Some token)
      show ?thesis
      proof (cases "int (length argv) < MAX_ARGC")
        case True
        then have "length (argv @ [token]) \<le> 6"
          by (simp add: MAX_ARGC_def)
        from "1.IH" [OF Pair [symmetric] Some True this] Pair Some True
        show ?thesis
          by (subst collect_args.simps, subst tokens.simps)
             (simp add: MAX_ARGC_def take_Cons')
      next
        case False
        with "1.prems" have "length argv = 6"
          by (simp add: MAX_ARGC_def)
        with Pair Some False show ?thesis
          by (subst collect_args.simps) simp
      qed
    qed
  qed
qed

lemma collect_args_tokens: "collect_args saved [] = take 6 (tokens saved)"
  using collect_args_take [of "[]" saved] by simp

lemma printf_printf: "printf ys (printf xs s) = printf (xs @ ys) s"
  by (simp add: printf_def)

lemma call_func_effect:
  "call_func f argc argv s = (x, s') \<Longrightarrow>
   calls s' = calls s @ [(f, argc, argv)] \<and> cmd_list s' = cmd_list s \<and> stdin s' = stdin s \<and>
   (f \<noteq> EndCmdFunc \<longrightarrow> end_parsing s' = end_parsing s) \<and>
   (f = EndCmdFunc \<longrightarrow> end_parsing s' = 1)"
  by (cases f)
     (auto simp: call_func_def help_cmd_func_def end_cmd_func_def printf_def Let_def)

lemma after_input_fields:
  "cmd_list (after_input count r s) = cmd_list s"
  "end_parsing (after_input count r s) = end_parsing s"
  "calls (after_input count r s) = calls s"
  "stdin (after_input count r s) = unread r"
  "stdout (after_input count r s) = stdout s @ [Prompt count] @ echoed r @ [Newline]"
  by (simp_all add: after_input_def printf_def)

lemma strbuff_overflow:
  "in_buffer (input MAX_INPUT_BUFFER ks) (nat MAX_INPUT_BUFFER) \<noteq> None \<longleftrightarrow>
   \<not> ret (input MAX_INPUT_BUFFER ks) < MAX_INPUT_BUFFER"
  using input_bounds [of MAX_INPUT_BUFFER ks] by (auto simp: MAX_INPUT_BUFFER_def)

lemma scp_parse_body_overflow:
  "\<not> ret (input MAX_INPUT_BUFFER (stdin s)) < MAX_INPUT_BUFFER \<Longrightarrow>
   scp_parse_body count s = Inl BufferOverflow"
  using strbuff_overflow [of "stdin s"]
  by (simp add: scp_parse_body_def Let_def printf_def)

lemma scp_parse_body_empty:
  "ret (input MAX_INPUT_BUFFER (stdin s)) = 0 \<Longrightarrow>
   scp_parse_body count s = Inr (count, after_input count (input MAX_INPUT_BUFFER (stdin s)) s)"
  using strbuff_overflow [of "stdin s"]
  by (simp add: scp_parse_body_def after_input_def Let_def printf_def MAX_INPUT_BUFFER_def)

lemma scp_parse_body_dispatch:
  "ret (input MAX_INPUT_BUFFER (stdin s)) \<noteq> 0 \<Longrightarrow>
   ret (input MAX_INPUT_BUFFER (stdin s)) < MAX_INPUT_BUFFER \<Longrightarrow>
   scp_parse_body count s =
     (case dispatch count (line (input MAX_INPUT_BUFFER (stdin s)))
             (after_input count (input MAX_INPUT_BUFFER (stdin s)) s) of
        Inl e \<Rightarrow> Inl e
      | Inr s4 \<Rightarrow> Inr (count + 1, printf [Newline] s4))"
  using strbuff_overflow [of "stdin s"]
  by (simp add: scp_parse_body_def after_input_def Let_def printf_def)

lemma scp_parse_body_found:
  assumes "r = input MAX_INPUT_BUFFER (stdin s)" and "ret r \<noteq> 0" and "ret r < MAX_INPUT_BUFFER"
    and "strtok (line r) '' .,'' = (Some token, saved)"
    and "find_command (head (cmd_list s)) (Some token) = Inr (Some command)"
    and "argv = collect_args saved []" and "argc = int (length argv)"
  shows "scp_parse_body count s =
     (if argc < min_arg command then
        Inr (count + 1, printf [TooFew count (cmd_str command) (min_arg command), Newline]
                          (after_input count r s))
      else if max_arg command < argc then
        Inr (count + 1, printf [TooMany count (cmd_str command) (max_arg command), Newline]
                          (after_input count r s))
      else
        Inr (count + 1, printf [Result count (fst (call_func (func command) argc argv (after_input count r s))), Newline]
                          (snd (call_func (func command) argc argv (after_input count r s)))))"
  using assms
  by (simp add: scp_parse_body_dispatch dispatch_def after_input_fields Let_def printf_printf
        split: prod.splits)

text \<open>The same turn, its resulting state written out field by field.\<close>

lemma scp_parse_body_turn:
  assumes "r = input MAX_INPUT_BUFFER (stdin s)" and "ret r \<noteq> 0" and "ret r < MAX_INPUT_BUFFER"
    and "strtok (line r) '' .,'' = (Some token, saved)"
    and "find_command (head (cmd_list s)) (Some token) = Inr (Some command)"
    and "argv = collect_args saved []" and "argc = int (length argv)"
  shows "scp_parse_body count s =
     (if argc < min_arg command then
        Inr (count + 1,
             turn_end count r [TooFew count (cmd_str command) (min_arg command), Newline] s)
      else if max_arg command < argc then
        Inr (count + 1,
             turn_end count r [TooMany count (cmd_str command) (max_arg command), Newline] s)
      else
        Inr (count + 1,
             (case func command of
                HelpCmdFunc \<Rightarrow>
                  turn_end count r (help_lines (head (cmd_list s)) @ [Result count 1, Newline]) s
              | EndCmdFunc \<Rightarrow> (turn_end count r [Result count 1, Newline] s)\<lparr>end_parsing := 1\<rparr>
              | UserFunc fn \<Rightarrow> turn_end count r [Result count (fn argc argv), Newline] s)
             \<lparr>calls := calls s @ [(func command, argc, argv)]\<rparr>))"
  unfolding scp_parse_body_found [OF assms]
  by (cases "func command")
     (simp_all add: call_func_def help_cmd_func_def end_cmd_func_def printf_def after_input_def
        turn_end_def help_lines_def)

lemma collect_args_Nil: "collect_args [] argv = argv"
  by (subst collect_args.simps) (simp add: strtok_def)

lemma help_cmd_func_fields:
  "cmd_list (snd (help_cmd_func argc argv s)) = cmd_list s"
  "end_parsing (snd (help_cmd_func argc argv s)) = end_parsing s"
  "stdin (snd (help_cmd_func argc argv s)) = stdin s"
  "calls (snd (help_cmd_func argc argv s)) = calls s"
  by (simp_all add: help_cmd_func_def printf_def)

lemma collect_args_le: "length (collect_args saved []) \<le> 6"
  by (simp add: collect_args_tokens)

lemma dispatch_effect:
  assumes "dispatch count str s = Inr s'"
  shows "cmd_list s' = cmd_list s \<and> stdin s' = stdin s \<and>
    ((calls s' = calls s \<and> end_parsing s' = end_parsing s) \<or>
     (\<exists>c argv. c \<in> set (head (cmd_list s)) \<and> length argv \<le> 6 \<and>
        calls s' = calls s @ [(func c, int (length argv), argv)] \<and>
        (func c \<noteq> EndCmdFunc \<longrightarrow> end_parsing s' = end_parsing s)))"
proof (cases "strtok str '' .,''")
  case (Pair token saved)
  show ?thesis
  proof (cases "find_command (head (cmd_list s)) token")
    case (Inl e)
    with Pair assms show ?thesis
      by (simp add: dispatch_def)
  next
    case (Inr found)
    show ?thesis
    proof (cases found)
      case None
      with Pair Inr assms show ?thesis
        by (auto simp: dispatch_def printf_def)
    next
      case (Some c)
      let ?argv = "collect_args saved []"
      let ?argc = "int (length ?argv)"
      from Inr Some have mem: "c \<in> set (head (cmd_list s))"
        by (auto dest: find_command_Inr_Some)
      show ?thesis
      proof (cases "?argc < min_arg c \<or> max_arg c < ?argc")
        case True
        with Pair Inr Some assms show ?thesis
          by (auto simp: dispatch_def printf_def Let_def split: if_splits)
      next
        case False
        obtain x s4 where call: "call_func (func c) ?argc ?argv s = (x, s4)"
          by (cases "call_func (func c) ?argc ?argv s")
        with Pair Inr Some assms False have s': "s' = printf [Result count x] s4"
          by (simp add: dispatch_def Let_def)
        from call_func_effect [OF call] mem collect_args_le [of saved] show ?thesis
          unfolding s' by (auto simp: printf_def)
      qed
    qed
  qed
qed

lemma scp_parse_body_effect:
  assumes "scp_parse_body count s = Inr (count', s')"
  shows "cmd_list s' = cmd_list s \<and>
    ((calls s' = calls s \<and> end_parsing s' = end_parsing s) \<or>
     (\<exists>c argv. c \<in> set (head (cmd_list s)) \<and> length argv \<le> 6 \<and>
        calls s' = calls s @ [(func c, int (length argv), argv)] \<and>
        (func c \<noteq> EndCmdFunc \<longrightarrow> end_parsing s' = end_parsing s)))"
proof (cases "ret (input MAX_INPUT_BUFFER (stdin s)) = 0")
  case True
  with assms show ?thesis
    by (auto simp: scp_parse_body_empty after_input_fields)
next
  case False
  let ?r = "input MAX_INPUT_BUFFER (stdin s)"
  from assms have fits: "ret ?r < MAX_INPUT_BUFFER"
    using scp_parse_body_overflow [of s count] by auto
  with False assms obtain s4 where d: "dispatch count (line ?r) (after_input count ?r s) = Inr s4"
    and s': "s' = printf [Newline] s4"
    by (auto simp: scp_parse_body_dispatch split: sum.splits)
  from dispatch_effect [OF d] show ?thesis
    unfolding s' by (simp add: after_input_fields printf_def)
qed

lemma scp_parse_loop_returns_flagged:
  "scp_parse_loop n count s = Some (Inr s') \<Longrightarrow> end_parsing s' \<noteq> 0"
proof (induction n arbitrary: count s)
  case 0
  then show ?case
    by (subst (asm) scp_parse_loop.simps) (auto split: if_splits)
next
  case (Suc n)
  from Suc.prems show ?case
    by (subst (asm) scp_parse_loop.simps)
       (auto split: if_splits sum.splits dest: Suc.IH)
qed

lemma scp_parse_loop_never_returns:
  "\<forall>c\<in>set (head (cmd_list s)). func c \<noteq> EndCmdFunc \<Longrightarrow> end_parsing s = 0 \<Longrightarrow>
   scp_parse_loop n count s \<noteq> Some (Inr t)"
proof (induction n arbitrary: count s)
  case 0
  then show ?case
    by (subst scp_parse_loop.simps) simp
next
  case (Suc n)
  show ?case
  proof (cases "scp_parse_body count s")
    case (Inl e)
    with Suc.prems show ?thesis
      by (subst scp_parse_loop.simps) simp
  next
    case (Inr p)
    obtain count' s' where p: "p = (count', s')"
      by (cases p)
    from scp_parse_body_effect [OF Inr [unfolded p]] Suc.prems
    have "\<forall>c\<in>set (head (cmd_list s')). func c \<noteq> EndCmdFunc" and "end_parsing s' = 0"
      by auto
    then have "scp_parse_loop n count' s' \<noteq> Some (Inr t)"
      by (rule Suc.IH)
    with Inr p Suc.prems show ?thesis
      by (subst scp_parse_loop.simps) simp
  qed
qed

lemma dispatch_null_token:
  "strtok str '' .,'' = (None, saved) \<Longrightarrow> head (cmd_list s) \<noteq> [] \<Longrightarrow>
   dispatch count str s = Inl NullPointer"
  by (cases "head (cmd_list s)") (simp_all add: dispatch_def)

lemma scp_parse_loop_end:
  assumes "head (cmd_list s) = help_cmd # end_cmd # users" and "end_parsing s = 0"
    and "stdin s = ''end'' @ e # ks" and "e = CR \<or> e = LF"
  shows "\<exists>t. scp_parse_loop (Suc n) count s = Some (Inr t) \<and> end_parsing t = 1 \<and>
           stdin t = ks \<and> calls t = calls s @ [(EndCmdFunc, 0, [])]"
proof -
  let ?r = "input MAX_INPUT_BUFFER (stdin s)"
  let ?a = "after_input count ?r s"
  have "\<forall>c\<in>set ''end''. c \<noteq> CR \<and> c \<noteq> LF \<and> c \<noteq> BS \<and> c \<noteq> DEL"
    and "int (length ''end'') \<le> MAX_INPUT_BUFFER" and "NUL \<notin> set ''end''"
    by (simp_all add: CR_def LF_def BS_def DEL_def NUL_def MAX_INPUT_BUFFER_def)
  from input_ordinary_line [OF this(1,2) assms(4), of ks] this(3)
  have r: "ret ?r = 3" "line ?r = ''end''" "unread ?r = ks"
    by (simp_all add: assms(3))
  have ne: "ret ?r \<noteq> 0" and fits: "ret ?r < MAX_INPUT_BUFFER"
    using r(1) by (simp_all add: MAX_INPUT_BUFFER_def)
  have tok: "strtok (line ?r) '' .,'' = (Some ''end'', [])"
    by (simp add: r strtok_def)
  have fnd: "find_command (head (cmd_list s)) (Some ''end'') = Inr (Some end_cmd)"
    by (simp add: assms(1) find_command_Cons names_token_def help_cmd_def end_cmd_def
          new_command_def del: find_command.simps)
  obtain x t where call: "call_func (func end_cmd) 0 [] ?a = (x, t)"
    by (cases "call_func (func end_cmd) 0 [] ?a")
  from call_func_effect [OF call]
  have t: "calls t = calls s @ [(EndCmdFunc, 0, [])]" "stdin t = ks" "end_parsing t = 1"
    by (simp_all add: after_input_fields r end_cmd_def new_command_def)
  have "scp_parse_body count s = Inr (count + 1, printf [Result count x, Newline] t)"
    by (simp add: scp_parse_body_found [OF refl ne fits tok fnd refl refl] collect_args_Nil
          end_cmd_def new_command_def call [unfolded end_cmd_def new_command_def, simplified])
  then have "scp_parse_loop (Suc n) count s =
      scp_parse_loop n (count + 1) (printf [Result count x, Newline] t)"
    using assms(2) by (subst scp_parse_loop.simps) simp
  also have "\<dots> = Some (Inr (printf [Result count x, Newline] t))"
    using t(3) by (subst scp_parse_loop.simps) (simp add: printf_def)
  finally show ?thesis
    using t by (simp add: printf_def)
qed

subsection \<open>The example data\<close>

lemma ex_state_configured: "configured 0 (ex_state ks)"
proof -
  let ?s1 = "(ex_state ks)\<lparr>cmd_list := \<lparr>head = [help_cmd, end_cmd], list_size = 2\<rparr>\<rparr>"
  let ?s2 = "(ex_state ks)\<lparr>cmd_list := \<lparr>head = [help_cmd, end_cmd, ex_add], list_size = 3\<rparr>\<rparr>"
  have 1: "scp_init 0 (startup ks) = Inr ?s1"
    by (simp add: scp_init_def startup_def ex_state_def help_cmd_def end_cmd_def Let_def)
  have 2: "scp_add_command (Some ''add'') (Some ''a'') (Some ''Add <P1> to <P2> [... to <P5>]'')
             2 5 (Some ex_handler) ?s1 = Inr ?s2"
    by (simp add: scp_add_command_def ex_state_def ex_add_def MAX_CMD_STR_def MAX_ABBR_STR_def
          MAX_HELP_STR_def)
  have 3: "scp_add_command (Some ''sum'') (Some ''s'') (Some ''Sum of up to eight integers'')
             0 8 (Some ex_handler) ?s2 = Inr (ex_state ks)"
    by (simp add: scp_add_command_def ex_state_def ex_sum_def MAX_CMD_STR_def MAX_ABBR_STR_def
          MAX_HELP_STR_def)
  show ?thesis
    by (rule configured.add [OF configured.add [OF configured.init [OF 1] 2] 3])
qed

lemma ex_state_no_end_configured: "configured 1 (ex_state_no_end ks)"
proof -
  let ?s1 = "(ex_state_no_end ks)\<lparr>cmd_list := \<lparr>head = [help_cmd], list_size = 1\<rparr>\<rparr>"
  have 1: "scp_init 1 (startup ks) = Inr ?s1"
    by (simp add: scp_init_def startup_def ex_state_no_end_def help_cmd_def Let_def)
  have 2: "scp_add_command (Some ''add'') (Some ''a'') (Some ''Add <P1> to <P2> [... to <P5>]'')
             2 5 (Some ex_handler) ?s1 = Inr (ex_state_no_end ks)"
    by (simp add: scp_add_command_def ex_state_no_end_def ex_add_def MAX_CMD_STR_def
          MAX_ABBR_STR_def MAX_HELP_STR_def)
  show ?thesis
    by (rule configured.add [OF configured.init [OF 1] 2])
qed

lemma main_state_configured: "configured 0 (main_state ks)"
proof -
  let ?s1 = "(main_state ks)\<lparr>cmd_list := \<lparr>head = [help_cmd, end_cmd], list_size = 2\<rparr>\<rparr>"
  let ?s2 = "(main_state ks)\<lparr>cmd_list := \<lparr>head = [help_cmd, end_cmd, main_add], list_size = 3\<rparr>\<rparr>"
  have 1: "scp_init 0 (startup ks) = Inr ?s1"
    by (simp add: scp_init_def startup_def main_state_def help_cmd_def end_cmd_def Let_def)
  have 2: "scp_add_command (Some ''add'') (Some ''a'') (Some ''Add <P1> to <P2> [... to <P5>]'')
             2 5 (Some add_cmd_func) ?s1 = Inr ?s2"
    by (simp add: scp_add_command_def main_state_def main_add_def MAX_CMD_STR_def
          MAX_ABBR_STR_def MAX_HELP_STR_def)
  have 3: "scp_add_command (Some ''sub'') (Some ''s'') (Some ''Subtract <P2> from <P1>'')
             2 2 (Some sub_cmd_func) ?s2 = Inr (main_state ks)"
    by (simp add: scp_add_command_def main_state_def main_sub_def MAX_CMD_STR_def
          MAX_ABBR_STR_def MAX_HELP_STR_def)
  show ?thesis
    by (rule configured.add [OF configured.add [OF configured.init [OF 1] 2] 3])
qed

lemma wide_state_configured: "configured 0 (wide_state ks)"
proof -
  let ?s1 = "(wide_state ks)\<lparr>cmd_list :=
      \<lparr>head = [help_cmd, end_cmd, main_add, main_sub, ex_total], list_size = 5\<rparr>\<rparr>"
  have m: "main_state ks = (wide_state ks)\<lparr>cmd_list :=
      \<lparr>head = [help_cmd, end_cmd, main_add, main_sub], list_size = 4\<rparr>\<rparr>"
    by (simp add: main_state_def wide_state_def)
  have 1: "scp_add_command (Some ''total'') (Some ''t'') (Some ''Add up to eight integers'')
             0 8 (Some add_cmd_func) (main_state ks) = Inr ?s1"
    unfolding m
    by (simp add: scp_add_command_def wide_state_def ex_total_def MAX_CMD_STR_def
          MAX_ABBR_STR_def MAX_HELP_STR_def)
  have 2: "scp_add_command (Some ''octet'') (Some ''o'') (Some ''Add seven or eight integers'')
             7 8 (Some add_cmd_func) ?s1 = Inr (wide_state ks)"
    by (simp add: scp_add_command_def wide_state_def ex_octet_def MAX_CMD_STR_def
          MAX_ABBR_STR_def MAX_HELP_STR_def)
  show ?thesis
    by (rule configured.add [OF configured.add [OF main_state_configured 1] 2])
qed

text \<open>A line of ordinary characters typed at the prompt of \<open>scp_parse\<close>, then Enter.\<close>

lemma typed_line:
  assumes "\<forall>c\<in>set l. c \<noteq> CR \<and> c \<noteq> LF \<and> c \<noteq> BS \<and> c \<noteq> DEL \<and> c \<noteq> NUL"
    and "l \<noteq> []" and "length l < 128" and "e = CR \<or> e = LF"
  shows "ret (input MAX_INPUT_BUFFER (l @ e # ks)) \<noteq> 0"
    and "ret (input MAX_INPUT_BUFFER (l @ e # ks)) < MAX_INPUT_BUFFER"
    and "line (input MAX_INPUT_BUFFER (l @ e # ks)) = l"
    and "unread (input MAX_INPUT_BUFFER (l @ e # ks)) = ks"
    and "echoed (input MAX_INPUT_BUFFER (l @ e # ks)) = map Putch l"
proof -
  from assms(1) have ord: "\<forall>c\<in>set l. c \<noteq> CR \<and> c \<noteq> LF \<and> c \<noteq> BS \<and> c \<noteq> DEL" and nul: "NUL \<notin> set l"
    by auto
  from assms(3) have "int (length l) \<le> MAX_INPUT_BUFFER"
    by (simp add: MAX_INPUT_BUFFER_def)
  note r = input_ordinary_line [OF ord this assms(4), of ks]
  from r assms(2) show "ret (input MAX_INPUT_BUFFER (l @ e # ks)) \<noteq> 0"
    by simp
  from r assms(3) show "ret (input MAX_INPUT_BUFFER (l @ e # ks)) < MAX_INPUT_BUFFER"
    by (simp add: MAX_INPUT_BUFFER_def)
  from r nul show "line (input MAX_INPUT_BUFFER (l @ e # ks)) = l"
    by simp
  from r show "unread (input MAX_INPUT_BUFFER (l @ e # ks)) = ks"
    and "echoed (input MAX_INPUT_BUFFER (l @ e # ks)) = map Putch l"
    by simp_all
qed


lemma wide_find:
  "find_command (head (cmd_list (wide_state ks))) (Some ''total'') = Inr (Some ex_total)"
  "find_command (head (cmd_list (wide_state ks))) (Some ''octet'') = Inr (Some ex_octet)"
  by (simp_all add: wide_state_def find_command_Cons names_token_def help_cmd_def end_cmd_def
        main_add_def main_sub_def ex_total_def ex_octet_def new_command_def
        del: find_command.simps)


lemma ex_tokens:
  "tokens ''4 8 15 16 23 42 7 9'' = [''4'', ''8'', ''15'', ''16'', ''23'', ''42'', ''7'', ''9'']"
  by code_simp

lemma ex_sums:
  "add_cmd_func 4 [''2'', ''2'', ''2'', ''2''] = 8"
  "add_cmd_func 6 [''4'', ''8'', ''15'', ''16'', ''23'', ''42''] = 108"
  by code_simp+

section \<open>The claims\<close>

subsection \<open>Lookup\<close>

text \<open>
  Claim C3. For every token and every command list, \<open>find_command\<close> returns the
  earliest descriptor whose name or abbreviation is the token (the descriptors before
  it do not answer to the token), and returns none when no descriptor answers to it;
  the comparison is equality of the strings, so it is case-sensitive. The name of
  every descriptor \<open>r\<close> of the list is found, and so is its abbreviation when it has one.
\<close>

theorem find_command_first_match:
  "(names_token c tok \<and> (\<forall>d\<in>set pre. \<not> names_token d tok) \<longrightarrow>
      find_command (pre @ c # post) (Some tok) = Inr (Some c))
   \<and> ((\<forall>d\<in>set cmds. \<not> names_token d tok) \<longrightarrow> find_command cmds (Some tok) = Inr None)
   \<and> (r \<in> set cmds \<longrightarrow>
        (\<exists>d. find_command cmds (Some (cmd_str r)) = Inr (Some d) \<and> names_token d (cmd_str r)) \<and>
        (\<forall>a. abbr_str r = Some a \<longrightarrow>
           (\<exists>d. find_command cmds (Some a) = Inr (Some d) \<and> names_token d a)))"
proof (intro conjI allI impI)
  assume h: "names_token c tok \<and> (\<forall>d\<in>set pre. \<not> names_token d tok)"
  then have "find_command (pre @ c # post) (Some tok) = find_command (c # post) (Some tok)"
    by (simp add: find_command_skip)
  with h show "find_command (pre @ c # post) (Some tok) = Inr (Some c)"
    by (simp only: find_command_Cons if_True)
next
  assume "\<forall>d\<in>set cmds. \<not> names_token d tok"
  then show "find_command cmds (Some tok) = Inr None"
    by (rule find_command_None)
next
  assume "r \<in> set cmds"
  then show "\<exists>d. find_command cmds (Some (cmd_str r)) = Inr (Some d) \<and> names_token d (cmd_str r)"
    by (rule find_command_finds) (simp add: names_token_def)
next
  fix a assume h: "r \<in> set cmds" "abbr_str r = Some a"
  then have "names_token r a"
    by (simp add: names_token_def)
  with h(1) show "\<exists>d. find_command cmds (Some a) = Inr (Some d) \<and> names_token d a"
    by (rule find_command_finds)
qed

theorem find_command_first_match_witness:
  "find_command ex_cmds (Some ''a'') = Inr (Some (ex_cmds ! 2))
   \<and> find_command ex_cmds (Some ''ADD'') = Inr None
   \<and> (\<exists>d. find_command ex_cmds (Some ''led'') = Inr (Some d) \<and> names_token d ''led'')
   \<and> (\<exists>d. find_command ex_cmds (Some ''add'') = Inr (Some d) \<and> names_token d ''add'')"
  using find_command_first_match
    [of "ex_cmds ! 2" "''a''" "take 2 ex_cmds" "drop 3 ex_cmds" ex_cmds "ex_cmds ! 3"]
    find_command_first_match
    [of "ex_cmds ! 2" "''ADD''" "take 2 ex_cmds" "drop 3 ex_cmds" ex_cmds "ex_cmds ! 4"]
  by (simp add: ex_cmds_def names_token_def new_command_def)

subsection \<open>Registration\<close>

text \<open>
  Claim C5, as amended. \<open>scp_add_command\<close> fails by an assertion whenever the parser
  is not initialised, the name, the help text or the handler is null, \<open>min_arg\<close> exceeds
  \<open>max_arg\<close>, or the name has more than 10 characters; with an abbreviation that is not
  null it also fails by an assertion whenever the abbreviation has more than 4
  characters or the help text more than 40. After initialisation, a call with a name of
  at most 10 characters, an abbreviation of at most 4, a help text of at most 40, a
  handler and \<open>min_arg \<le> max_arg\<close> returns, and the new descriptor is the last of the
  list. (What a null abbreviation does past the first checks is claim C8.)
\<close>

theorem scp_add_command_contract:
  "((head (cmd_list s) = [] \<or> cmd = None \<or> hlp = None \<or> mx < mn \<or> f = None \<or>
     (\<exists>n. cmd = Some n \<and> 10 < length n)) \<longrightarrow>
      scp_add_command cmd abbr hlp mn mx f s = Inl AssertionFailed)
   \<and> ((\<exists>a. abbr = Some a \<and> (4 < length a \<or> (\<exists>h. hlp = Some h \<and> 40 < length h))) \<longrightarrow>
      scp_add_command cmd abbr hlp mn mx f s = Inl AssertionFailed)
   \<and> (head (cmd_list s) \<noteq> [] \<and> cmd = Some n \<and> length n \<le> 10 \<and> abbr = Some a \<and> length a \<le> 4 \<and>
      hlp = Some h \<and> length h \<le> 40 \<and> mn \<le> mx \<and> f = Some fn \<longrightarrow>
      scp_add_command cmd abbr hlp mn mx f s =
        Inr (append_command (new_command n (Some a) h mn mx (UserFunc fn)) s))"
  by (auto simp: scp_add_command_def append_command_def MAX_CMD_STR_def MAX_ABBR_STR_def
        MAX_HELP_STR_def Let_def split: option.splits)

text \<open>
  The claim as it was stated fails: a name, a help text and a handler within the
  limits of the claim, \<open>min_arg \<le> max_arg\<close>, and the assertion on the length of the
  abbreviation fires.
\<close>

theorem scp_add_command_long_abbr_counterexample:
  "length ''toggle'' \<le> 10 \<and> length ''Toggle the LED'' \<le> 40 \<and> (0::int) \<le> 1
   \<and> head (cmd_list (ex_state [])) = [help_cmd, end_cmd, ex_add, ex_sum]
   \<and> scp_add_command (Some ''toggle'') (Some ''toggl'') (Some ''Toggle the LED'') 0 1
        (Some ex_handler) (ex_state []) = Inl AssertionFailed"
  by (simp add: ex_state_def scp_add_command_def MAX_CMD_STR_def MAX_ABBR_STR_def)

theorem scp_add_command_contract_witness:
  "scp_add_command (Some ''sub'') (Some ''s'') (Some ''Subtract <P2> from <P1>'') 2 2
        (Some ex_handler) (ex_state []) =
     Inr (append_command
            (new_command ''sub'' (Some ''s'') ''Subtract <P2> from <P1>'' 2 2 (UserFunc ex_handler))
            (ex_state []))
   \<and> scp_add_command (Some ''sub'') (Some ''s'') (Some ''Subtract <P2> from <P1>'') 3 2
        (Some ex_handler) (ex_state []) = Inl AssertionFailed
   \<and> scp_add_command (Some ''sub'') (Some ''minus'') (Some ''Subtract <P2> from <P1>'') 2 2
        (Some ex_handler) (ex_state []) = Inl AssertionFailed"
  using scp_add_command_contract [where s = "ex_state []" and cmd = "Some ''sub''"
      and abbr = "Some ''s''" and hlp = "Some ''Subtract <P2> from <P1>''" and mn = 2 and mx = 2
      and f = "Some ex_handler" and n = "''sub''" and a = "''s''"
      and h = "''Subtract <P2> from <P1>''" and fn = ex_handler]
    scp_add_command_contract [where s = "ex_state []" and cmd = "Some ''sub''"
      and abbr = "Some ''s''" and hlp = "Some ''Subtract <P2> from <P1>''" and mn = 3 and mx = 2
      and f = "Some ex_handler"]
    scp_add_command_contract [where s = "ex_state []" and cmd = "Some ''sub''"
      and abbr = "Some ''minus''" and hlp = "Some ''Subtract <P2> from <P1>''" and mn = 2
      and mx = 2 and f = "Some ex_handler"]
  by (simp add: ex_state_def)

text \<open>
  Claim C8. The header and a comment of \<open>scp_add_command\<close> allow a null abbreviation,
  and \<open>find_command\<close> tests for it, but \<open>scp_add_command\<close> passes it to
  \<^verbatim>\<open>strlen\<close>: a call with a null abbreviation and otherwise valid arguments does not
  register the command. (In a list that holds a descriptor with no abbreviation,
  \<open>find_command\<close> does find it by its name.)
\<close>

theorem scp_add_command_null_abbr:
  "scp_add_command (Some ''led'') None (Some ''Toggle the LED'') 0 0 (Some ex_handler)
     (ex_state []) = Inl NullPointer
   \<and> find_command ex_cmds (Some ''led'') = Inr (Some (ex_cmds ! 3))"
  by (simp add: ex_state_def scp_add_command_def MAX_CMD_STR_def ex_cmds_def new_command_def
        find_command_Cons names_token_def del: find_command.simps)

subsection \<open>The line reader\<close>

text \<open>
  Claim C2. A line of exactly \<open>len\<close> characters fills the buffer; the loop then stores
  the next keystroke at offset \<open>len\<close>, one past the last byte of the buffer, and the
  terminator is written there too. With the buffer of \<open>scp_parse\<close>, 128 characters and
  the newline: the function returns 128, the terminator is at offset 128, and the
  newline is consumed.
\<close>

theorem input_full_line_overflow:
  "ret (input MAX_INPUT_BUFFER (replicate 128 (CHR ''a'') @ [LF])) = MAX_INPUT_BUFFER
   \<and> in_buffer (input MAX_INPUT_BUFFER (replicate 128 (CHR ''a'') @ [LF])) 128 = Some NUL
   \<and> unread (input MAX_INPUT_BUFFER (replicate 128 (CHR ''a'') @ [LF])) = []"
  by code_simp

text \<open>
  Claim C7, as amended. Let the keystrokes \<open>p\<close> leave the reader in its loop with
  \<open>ptr\<close> characters stored (whatever is typed after \<open>p\<close>, the loop goes on from \<open>ptr\<close>).
  If \<open>ptr + 1 < len\<close>, an ordinary character followed by a backspace or DEL changes
  neither the string that \<open>input\<close> leaves in the buffer, nor the count it returns, nor
  the keystrokes it leaves unread. A backspace or DEL typed when nothing is stored
  leaves the reader at offset 0 with nothing echoed.
\<close>

theorem input_type_then_erase:
  assumes "\<And>ks'. input_loop 0 len Map.empty (p @ ks') [] = input_loop ptr len buf ks' scr"
    and "b = BS \<or> b = DEL"
  shows "(c \<noteq> BS \<and> c \<noteq> DEL \<and> c \<noteq> CR \<and> c \<noteq> LF \<and> int ptr + 1 < len \<longrightarrow>
            line (input len (p @ c # b # ks)) = line (input len (p @ ks)) \<and>
            ret (input len (p @ c # b # ks)) = ret (input len (p @ ks)) \<and>
            unread (input len (p @ c # b # ks)) = unread (input len (p @ ks)))
       \<and> (ptr = 0 \<and> 0 < len \<longrightarrow>
            input_loop 0 len Map.empty (p @ b # ks) [] = input_loop 0 len (buf(0 \<mapsto> b)) ks scr)"
proof -
  have erase: "line (input len (p @ c # b # ks)) = line (input len (p @ ks)) \<and>
      ret (input len (p @ c # b # ks)) = ret (input len (p @ ks)) \<and>
      unread (input len (p @ c # b # ks)) = unread (input len (p @ ks))"
    if h: "c \<noteq> BS \<and> c \<noteq> DEL \<and> c \<noteq> CR \<and> c \<noteq> LF \<and> int ptr + 1 < len"
  proof -
    from h have "c \<noteq> BS \<and> c \<noteq> DEL \<and> c \<noteq> CR \<and> c \<noteq> LF" and "int ptr + 1 < len"
      by simp_all
    from input_loop_type_then_erase [OF this(1) assms(2) this(2), of buf ks scr]
    obtain q b1 b2 k s1 s2 where
      1: "input_loop ptr len buf (c # b # ks) scr = (q, b1, k, s1)" and
      2: "input_loop ptr len buf ks scr = (q, b2, k, s2)" and
      ag: "\<forall>i\<le>q. b1 i = b2 i"
      by blast
    have "c_string (b1(q \<mapsto> NUL)) 0 q = c_string (b2(q \<mapsto> NUL)) 0 q"
      using ag by (intro c_string_cong) simp
    then show ?thesis
      by (simp add: input_def assms(1) 1 2 input_finish_def line_def)
  qed
  have start: "input_loop 0 len Map.empty (p @ b # ks) [] =
      input_loop 0 len (buf(0 \<mapsto> b)) ks scr"
    if "ptr = 0 \<and> 0 < len"
    using that assms(2) input_loop_erase_nothing [of "b # ks" len buf scr]
    by (simp add: assms(1) GETCH_Cons)
  from erase start show ?thesis
    by blast
qed

theorem input_type_then_erase_witness:
  "line (input MAX_INPUT_BUFFER (''ab'' @ CHR ''c'' # BS # ''d'' @ [LF])) =
     line (input MAX_INPUT_BUFFER (''ab'' @ ''d'' @ [LF]))
   \<and> line (input MAX_INPUT_BUFFER (''ab'' @ ''d'' @ [LF])) = ''abd''
   \<and> input_loop 0 MAX_INPUT_BUFFER Map.empty ([] @ DEL # ''d'' @ [LF]) [] =
       input_loop 0 MAX_INPUT_BUFFER [0 \<mapsto> DEL] (''d'' @ [LF]) []"
proof -
  have p: "input_loop 0 MAX_INPUT_BUFFER Map.empty (''ab'' @ ks') [] =
      input_loop 2 MAX_INPUT_BUFFER [0 \<mapsto> CHR ''a'', 1 \<mapsto> CHR ''b''] ks'
        [Putch (CHR ''a''), Putch (CHR ''b'')]" for ks'
    by (simp add: input_loop_store GETCH_Cons MAX_INPUT_BUFFER_def CR_def LF_def BS_def DEL_def
          eval_nat_numeral)
  have q: "input_loop 0 MAX_INPUT_BUFFER Map.empty ([] @ ks') [] =
      input_loop 0 MAX_INPUT_BUFFER Map.empty ks' []" for ks'
    by simp
  have c: "CHR ''c'' \<noteq> BS \<and> CHR ''c'' \<noteq> DEL \<and> CHR ''c'' \<noteq> CR \<and> CHR ''c'' \<noteq> LF \<and>
      int 2 + 1 < MAX_INPUT_BUFFER"
    by (simp add: MAX_INPUT_BUFFER_def CR_def LF_def BS_def DEL_def)
  have l: "line (input MAX_INPUT_BUFFER (''ab'' @ ''d'' @ [LF])) = ''abd''"
    using input_ordinary_line [of "''abd''" MAX_INPUT_BUFFER LF "[]"]
    by (simp add: MAX_INPUT_BUFFER_def CR_def LF_def BS_def DEL_def NUL_def)
  have z: "(0::nat) = 0 \<and> 0 < MAX_INPUT_BUFFER"
    by (simp add: MAX_INPUT_BUFFER_def)
  from input_type_then_erase [OF p disjI1 [OF refl], THEN conjunct1, rule_format, OF c,
      of "''d'' @ [LF]"]
    input_type_then_erase [OF q disjI2 [OF refl], THEN conjunct2, rule_format, OF z,
      of "''d'' @ [LF]"] l
  show ?thesis
    by blast
qed

text \<open>
  The claim as it was stated fails when the character fills the buffer: the reader
  returns at the next keystroke, which is the backspace, and the character stays.
\<close>

theorem input_erase_at_full_counterexample:
  "line (input MAX_INPUT_BUFFER (replicate 127 (CHR ''x'') @ CHR ''a'' # BS # [LF])) \<noteq>
   line (input MAX_INPUT_BUFFER (replicate 127 (CHR ''x'') @ [LF]))"
  by code_simp

subsection \<open>The parse loop\<close>



text \<open>
  Claim C9, as amended. The loop that fills \<open>argv\<close> stops at \<open>MAX_ARGC = 6\<close> tokens:
  on every line that fits \<^verbatim>\<open>strbuff\<close> the collected arguments are the first 6
  argument tokens at most, so a handler is applied to at most 6 arguments, and the only
  call a turn can make passes these. For a command registered with
  \<open>min_arg \<le> 6 \<le> max_arg\<close> and a line of more than 6 argument tokens, the too-many
  message is not printed and the handler is applied to the first 6 tokens, the others
  being dropped without a message. For a command registered with \<open>6 < min_arg\<close> such a
  line is answered by the too-few message, and the handler is not called.
\<close>

theorem scp_parse_body_caps_argc:
  assumes "configured d s0" and "cmd_list s = cmd_list s0"
    and "r = input MAX_INPUT_BUFFER (stdin s)" and "ret r \<noteq> 0" and "ret r < MAX_INPUT_BUFFER"
    and "strtok (line r) '' .,'' = (Some token, saved)"
    and "find_command (head (cmd_list s)) (Some token) = Inr (Some command)"
    and "argv = collect_args saved []"
  shows "argv = take 6 (tokens saved) \<and> length argv \<le> 6
       \<and> (\<forall>fn. func command = UserFunc fn \<and> min_arg command \<le> int (length argv) \<and>
               int (length argv) \<le> max_arg command \<longrightarrow>
            scp_parse_body count s =
              Inr (count + 1,
                   (turn_end count r [Result count (fn (int (length argv)) argv), Newline] s)
                   \<lparr>calls := calls s @ [(UserFunc fn, int (length argv), argv)]\<rparr>))
       \<and> (\<forall>count' s'. scp_parse_body count s = Inr (count', s') \<longrightarrow>
            calls s' = calls s \<or>
            calls s' = calls s @ [(func command, int (length argv), argv)])
       \<and> (6 < length (tokens saved) \<and> 6 \<le> max_arg command \<longrightarrow>
            scp_parse_body count s \<noteq>
              Inr (count + 1,
                   turn_end count r [TooMany count (cmd_str command) (max_arg command), Newline] s) \<and>
            (\<exists>fn. func command = UserFunc fn \<and>
               (min_arg command \<le> 6 \<longrightarrow>
                  scp_parse_body count s =
                    Inr (count + 1,
                         (turn_end count r
                            [Result count (fn 6 (take 6 (tokens saved))), Newline] s)
                         \<lparr>calls := calls s @ [(UserFunc fn, 6, take 6 (tokens saved))]\<rparr>))) \<and>
            (6 < min_arg command \<longrightarrow>
               scp_parse_body count s =
                 Inr (count + 1,
                      turn_end count r
                        [TooFew count (cmd_str command) (min_arg command), Newline] s)))"
proof -
  let ?argc = "int (length argv)"
  note turn = scp_parse_body_turn [OF assms(3-8) refl, of count]
  have tk: "argv = take 6 (tokens saved)"
    unfolding assms(8) by (rule collect_args_tokens)
  have le: "length argv \<le> 6"
    unfolding assms(8) by (rule collect_args_le)
  from assms(7) have mem: "command \<in> set (head (cmd_list s))"
    by (auto dest: find_command_SomeD)
  have 2: "\<forall>fn. func command = UserFunc fn \<and> min_arg command \<le> ?argc \<and>
               ?argc \<le> max_arg command \<longrightarrow>
            scp_parse_body count s =
              Inr (count + 1,
                   (turn_end count r [Result count (fn ?argc argv), Newline] s)
                   \<lparr>calls := calls s @ [(UserFunc fn, ?argc, argv)]\<rparr>)"
    by (auto simp: turn)
  have 3: "\<forall>count' s'. scp_parse_body count s = Inr (count', s') \<longrightarrow>
            calls s' = calls s \<or> calls s' = calls s @ [(func command, ?argc, argv)]"
    by (cases "func command") (auto simp: turn turn_end_def split: if_splits)
  have 4: "scp_parse_body count s \<noteq>
              Inr (count + 1,
                   turn_end count r [TooMany count (cmd_str command) (max_arg command), Newline] s) \<and>
            (\<exists>fn. func command = UserFunc fn \<and>
               (min_arg command \<le> 6 \<longrightarrow>
                  scp_parse_body count s =
                    Inr (count + 1,
                         (turn_end count r
                            [Result count (fn 6 (take 6 (tokens saved))), Newline] s)
                         \<lparr>calls := calls s @ [(UserFunc fn, 6, take 6 (tokens saved))]\<rparr>))) \<and>
            (6 < min_arg command \<longrightarrow>
               scp_parse_body count s =
                 Inr (count + 1,
                      turn_end count r
                        [TooFew count (cmd_str command) (min_arg command), Newline] s))"
    if "6 < length (tokens saved)" "6 \<le> max_arg command"
  proof -
    from that(1) have six: "?argc = 6"
      by (simp add: tk)
    from configured_funcs [OF assms(1)] assms(2) mem that(2)
    obtain fn where fn: "func command = UserFunc fn"
      by auto
    have "stdout (turn_end count r msgs s) = stdout s @ [Prompt count] @ echoed r @ [Newline] @ msgs"
      for msgs
      by (simp add: turn_end_def)
    then have diff: "t \<noteq> turn_end count r
          [TooMany count (cmd_str command) (max_arg command), Newline] s"
      if "stdout t = stdout s @ [Prompt count] @ echoed r @ [Newline] @ [m, Newline]"
        "m \<noteq> TooMany count (cmd_str command) (max_arg command)" for t m
      using that by auto
    have "scp_parse_body count s \<noteq>
        Inr (count + 1,
             turn_end count r [TooMany count (cmd_str command) (max_arg command), Newline] s)"
    proof (cases "6 < min_arg command")
      case True
      with six show ?thesis
        by (simp add: turn) (rule diff [where m = "TooFew count (cmd_str command) (min_arg command)"],
            simp_all add: turn_end_def)
    next
      case False
      with six that(2) fn show ?thesis
        by (simp add: turn)
           (rule diff [where m = "Result count (fn 6 argv)"], simp_all add: turn_end_def)
    qed
    moreover have "min_arg command \<le> 6 \<longrightarrow>
        scp_parse_body count s =
          Inr (count + 1,
               (turn_end count r [Result count (fn 6 (take 6 (tokens saved))), Newline] s)
               \<lparr>calls := calls s @ [(UserFunc fn, 6, take 6 (tokens saved))]\<rparr>)"
      using six that(2) fn by (simp add: turn tk [symmetric])
    moreover have "6 < min_arg command \<longrightarrow>
        scp_parse_body count s =
          Inr (count + 1,
               turn_end count r [TooFew count (cmd_str command) (min_arg command), Newline] s)"
      using six by (simp add: turn)
    ultimately show ?thesis
      using fn by blast
  qed
  from tk le 2 3 4 show ?thesis
    by blast
qed

text \<open>
  The claim as it was stated fails for a command whose minimum is above the cap:
  \<open>octet\<close> is registered with 7 to 8 arguments, the line carries 8, the loop collects 6,
  and the answer is the too-few message; the handler is not called.
\<close>

theorem scp_parse_body_caps_argc_counterexample:
  "min_arg ex_octet = 7 \<and> max_arg ex_octet = 8
   \<and> find_command (head (cmd_list (wide_state []))) (Some ''octet'') = Inr (Some ex_octet)
   \<and> length (tokens ''4 8 15 16 23 42 7 9'') = 8
   \<and> scp_parse_body 1 (wide_state (''octet 4 8 15 16 23 42 7 9'' @ [LF])) =
       Inr (2, (wide_state [])
                 \<lparr>stdout := [Prompt 1] @ map Putch ''octet 4 8 15 16 23 42 7 9'' @
                             [Newline, TooFew 1 ''octet'' 7, Newline]\<rparr>)"
proof -
  have st: "stdin (wide_state ks) = ks" for ks
    by (simp add: wide_state_def)
  have "\<forall>c\<in>set ''octet 4 8 15 16 23 42 7 9''. c \<noteq> CR \<and> c \<noteq> LF \<and> c \<noteq> BS \<and> c \<noteq> DEL \<and> c \<noteq> NUL"
    by (simp add: CR_def LF_def BS_def DEL_def NUL_def)
  note l = typed_line [OF this, of LF "[]"]
  have ne: "ret (input MAX_INPUT_BUFFER (''octet 4 8 15 16 23 42 7 9'' @ [LF])) \<noteq> 0"
    and fits: "ret (input MAX_INPUT_BUFFER (''octet 4 8 15 16 23 42 7 9'' @ [LF])) < MAX_INPUT_BUFFER"
    and tok: "strtok (line (input MAX_INPUT_BUFFER (''octet 4 8 15 16 23 42 7 9'' @ [LF]))) '' .,'' =
      (Some ''octet'', ''4 8 15 16 23 42 7 9'')"
    using l by (simp_all add: strtok_def)
  from scp_parse_body_turn [OF refl _ _ _ wide_find(2) refl refl, unfolded st, OF ne fits tok, of 1]
    l(4,5)
  have "scp_parse_body 1 (wide_state (''octet 4 8 15 16 23 42 7 9'' @ [LF])) =
       Inr (2, (wide_state [])
                 \<lparr>stdout := [Prompt 1] @ map Putch ''octet 4 8 15 16 23 42 7 9'' @
                             [Newline, TooFew 1 ''octet'' 7, Newline]\<rparr>)"
    by (simp add: collect_args_tokens ex_tokens ex_octet_def new_command_def turn_end_def
          wide_state_def)
  then show ?thesis
    by (simp add: wide_find ex_tokens) (simp add: ex_octet_def new_command_def)
qed

theorem scp_parse_body_caps_argc_witness:
  "collect_args ''4 8 15 16 23 42 7 9'' [] = [''4'', ''8'', ''15'', ''16'', ''23'', ''42'']
   \<and> scp_parse_body 1 (wide_state (''total 4 8 15 16 23 42 7 9'' @ [LF])) =
       Inr (2, (wide_state [])
                 \<lparr>stdout := [Prompt 1] @ map Putch ''total 4 8 15 16 23 42 7 9'' @
                             [Newline, Result 1 108, Newline],
                  calls := [(UserFunc add_cmd_func, 6,
                             [''4'', ''8'', ''15'', ''16'', ''23'', ''42''])]\<rparr>)"
proof -
  have st: "stdin (wide_state ks) = ks" for ks
    by (simp add: wide_state_def)
  have "\<forall>c\<in>set ''total 4 8 15 16 23 42 7 9''. c \<noteq> CR \<and> c \<noteq> LF \<and> c \<noteq> BS \<and> c \<noteq> DEL \<and> c \<noteq> NUL"
    by (simp add: CR_def LF_def BS_def DEL_def NUL_def)
  note l = typed_line [OF this, of LF "[]"]
  have ne: "ret (input MAX_INPUT_BUFFER (''total 4 8 15 16 23 42 7 9'' @ [LF])) \<noteq> 0"
    and fits: "ret (input MAX_INPUT_BUFFER (''total 4 8 15 16 23 42 7 9'' @ [LF])) < MAX_INPUT_BUFFER"
    and tok: "strtok (line (input MAX_INPUT_BUFFER (''total 4 8 15 16 23 42 7 9'' @ [LF]))) '' .,'' =
      (Some ''total'', ''4 8 15 16 23 42 7 9'')"
    using l by (simp_all add: strtok_def)
  from scp_parse_body_caps_argc [OF wide_state_configured refl refl _ _ _ wide_find(1) refl,
      unfolded st, OF ne fits tok, of 1] l(4,5)
  show ?thesis
    by (simp add: ex_tokens ex_sums ex_total_def new_command_def turn_end_def wide_state_def)
qed

text \<open>
  Claim C6. When \<open>input\<close> returns 0, the turn of the loop ends after the newline that
  follows the prompt: it returns without failing, the counter is the same, the command
  list, the stop flag and the call log are unchanged, nothing is printed but the
  prompt, the echo and the newline, and the loop takes its next turn from that state.
\<close>

theorem scp_parse_body_empty_line:
  assumes "r = input MAX_INPUT_BUFFER (stdin s)" and "ret r = 0"
  shows "scp_parse_body count s = Inr (count, after_input count r s)
       \<and> cmd_list (after_input count r s) = cmd_list s
       \<and> end_parsing (after_input count r s) = end_parsing s
       \<and> calls (after_input count r s) = calls s
       \<and> stdin (after_input count r s) = unread r
       \<and> stdout (after_input count r s) = stdout s @ [Prompt count] @ echoed r @ [Newline]
       \<and> (end_parsing s = 0 \<longrightarrow>
            scp_parse_loop (Suc n) count s = scp_parse_loop n count (after_input count r s))"
proof -
  have b: "scp_parse_body count s = Inr (count, after_input count r s)"
    using assms by (simp add: scp_parse_body_empty)
  then have "end_parsing s = 0 \<longrightarrow>
      scp_parse_loop (Suc n) count s = scp_parse_loop n count (after_input count r s)"
    by (subst scp_parse_loop.simps) simp
  with b show ?thesis
    by (simp add: after_input_fields)
qed

theorem scp_parse_body_empty_line_witness:
  "scp_parse_body 3 (ex_state (LF # ''end'')) =
     Inr (3, (ex_state ''end'')\<lparr>stdout := [Prompt 3, Newline]\<rparr>)
   \<and> scp_parse_loop 2 3 (ex_state (LF # ''end'')) =
       scp_parse_loop 1 3 ((ex_state ''end'')\<lparr>stdout := [Prompt 3, Newline]\<rparr>)"
proof -
  let ?r = "\<lparr>in_buffer = [0 \<mapsto> NUL], ret = 0, unread = ''end'', echoed = []\<rparr>"
  have r: "?r = input MAX_INPUT_BUFFER (stdin (ex_state (LF # ''end'')))"
    by (simp add: ex_state_def input_empty_line)
  have a: "after_input 3 ?r (ex_state (LF # ''end'')) =
      (ex_state ''end'')\<lparr>stdout := [Prompt 3, Newline]\<rparr>"
    by (simp add: after_input_def printf_def ex_state_def)
  have "ret ?r = 0"
    by simp
  from scp_parse_body_empty_line [OF r this, of 3 1] show ?thesis
    unfolding a by (simp add: ex_state_def numeral_2_eq_2)
qed

text \<open>
  Claim C10. A line of one space has length 1, so it passes the test for an empty
  line; \<open>strtok\<close> finds no token in it and returns the null pointer, which the loop
  hands to \<open>find_command\<close>, where \<open>strcmp\<close> reads through it.
\<close>

theorem scp_parse_body_null_token:
  "ret (input MAX_INPUT_BUFFER ('' '' @ [LF])) = 1
   \<and> strtok (line (input MAX_INPUT_BUFFER ('' '' @ [LF]))) '' .,'' = (None, [])
   \<and> scp_parse_body 1 (ex_state ('' '' @ [LF])) = Inl NullPointer"
proof -
  let ?r = "input MAX_INPUT_BUFFER (stdin (ex_state ('' '' @ [LF])))"
  have r: "ret ?r = 1" "line ?r = '' ''"
    using input_ordinary_line [of "'' ''" MAX_INPUT_BUFFER LF "[]"]
    by (simp_all add: ex_state_def MAX_INPUT_BUFFER_def CR_def LF_def BS_def DEL_def NUL_def)
  have ne: "ret ?r \<noteq> 0" and fits: "ret ?r < MAX_INPUT_BUFFER"
    using r(1) by (simp_all add: MAX_INPUT_BUFFER_def)
  have tok: "strtok (line ?r) '' .,'' = (None, [])"
    unfolding r by (simp add: strtok_def)
  have "head (cmd_list (after_input 1 ?r (ex_state ('' '' @ [LF])))) \<noteq> []"
    by (simp add: after_input_fields ex_state_def)
  from dispatch_null_token [OF tok this, of 1] ne fits
  have "scp_parse_body 1 (ex_state ('' '' @ [LF])) = Inl NullPointer"
    by (simp add: scp_parse_body_dispatch)
  with r(1) tok show ?thesis
    by (simp add: ex_state_def)
qed

text \<open>
  What does hold of the way the loop is left. \<open>scp_parse\<close> returns only in a state
  whose stop flag is set, and a turn of the loop changes the flag only by calling the
  handler of \<open>end\<close>. After \<open>scp_init(0)\<close> and any registrations, \<open>end\<close> resolves to
  the built-in command, and the line \<open>end\<close> at a prompt sets the flag to 1 and the loop
  is left. After \<open>scp_init(d)\<close> with \<open>d \<noteq> 0\<close> the list holds no \<open>end\<close> command, no
  descriptor of the list has the handler of \<open>end\<close>, every turn that returns leaves the
  flag at 0, and for no amount of fuel does the loop, or \<open>scp_parse\<close>, return. A turn
  can still fail, and that ends the loop too.
\<close>

lemma scp_parse_returns_by_end_only:
  "(scp_parse n s = Some (Inr s') \<longrightarrow> end_parsing s' \<noteq> 0)
   \<and> (scp_parse_body count s = Inr (count', s') \<and> end_parsing s' \<noteq> end_parsing s \<longrightarrow>
        (\<exists>argv. calls s' = calls s @ [(EndCmdFunc, int (length argv), argv)]))
   \<and> (configured 0 s \<and> stdin s = ''end'' @ e # ks \<and> (e = CR \<or> e = LF) \<longrightarrow>
        find_command (head (cmd_list s)) (Some ''end'') = Inr (Some end_cmd) \<and>
        (\<exists>t. scp_parse (Suc n) s = Some (Inr t) \<and> end_parsing t = 1 \<and> stdin t = ks \<and>
             calls t = calls s @ [(EndCmdFunc, 0, [])]))
   \<and> (configured 0 s0 \<and> cmd_list s = cmd_list s0 \<and> end_parsing s = 0 \<and>
      stdin s = ''end'' @ e # ks \<and> (e = CR \<or> e = LF) \<longrightarrow>
        (\<exists>t. scp_parse_loop (Suc n) count s = Some (Inr t) \<and> end_parsing t = 1 \<and> stdin t = ks \<and>
             calls t = calls s @ [(EndCmdFunc, 0, [])]))
   \<and> (d \<noteq> 0 \<and> scp_init d (startup ks) = Inr s \<longrightarrow>
        find_command (head (cmd_list s)) (Some ''end'') = Inr None)
   \<and> (d \<noteq> 0 \<and> configured d s0 \<and> cmd_list s = cmd_list s0 \<and> end_parsing s = 0 \<longrightarrow>
        (\<forall>c\<in>set (head (cmd_list s)). func c \<noteq> EndCmdFunc) \<and>
        (\<forall>count' t. scp_parse_body count s = Inr (count', t) \<longrightarrow>
           end_parsing t = 0 \<and> cmd_list t = cmd_list s) \<and>
        (\<forall>t. scp_parse_loop n count s \<noteq> Some (Inr t)))
   \<and> (d \<noteq> 0 \<and> configured d s \<longrightarrow> (\<forall>t. scp_parse n s \<noteq> Some (Inr t)))"
proof (intro conjI impI)
  assume "scp_parse n s = Some (Inr s')"
  then show "end_parsing s' \<noteq> 0"
    unfolding scp_parse_def by (rule scp_parse_loop_returns_flagged)
next
  assume "scp_parse_body count s = Inr (count', s') \<and> end_parsing s' \<noteq> end_parsing s"
  then show "\<exists>argv. calls s' = calls s @ [(EndCmdFunc, int (length argv), argv)]"
    using scp_parse_body_effect [of count s count' s'] by auto
next
  assume h: "configured 0 s \<and> stdin s = ''end'' @ e # ks \<and> (e = CR \<or> e = LF)"
  then obtain users where hd: "head (cmd_list s) = help_cmd # end_cmd # users"
    using configured_enabled by blast
  then show "find_command (head (cmd_list s)) (Some ''end'') = Inr (Some end_cmd)"
    by (simp add: find_command_Cons names_token_def help_cmd_def end_cmd_def
          new_command_def del: find_command.simps)
  let ?s = "snd (help_cmd_func 0 [] s)"
  from h have "end_parsing s = 0"
    using configured_end_parsing [of 0 s] by simp
  with hd h have "\<exists>t. scp_parse_loop (Suc n) 1 ?s = Some (Inr t) \<and> end_parsing t = 1 \<and>
           stdin t = ks \<and> calls t = calls ?s @ [(EndCmdFunc, 0, [])]"
    by (intro scp_parse_loop_end [where users = users and e = e])
       (simp_all add: help_cmd_func_fields)
  then show "\<exists>t. scp_parse (Suc n) s = Some (Inr t) \<and> end_parsing t = 1 \<and> stdin t = ks \<and>
             calls t = calls s @ [(EndCmdFunc, 0, [])]"
    by (simp add: scp_parse_def help_cmd_func_fields)
next
  assume h: "configured 0 s0 \<and> cmd_list s = cmd_list s0 \<and> end_parsing s = 0 \<and>
      stdin s = ''end'' @ e # ks \<and> (e = CR \<or> e = LF)"
  then obtain users where "head (cmd_list s) = help_cmd # end_cmd # users"
    using configured_enabled [of s0] by auto
  with h show "\<exists>t. scp_parse_loop (Suc n) count s = Some (Inr t) \<and> end_parsing t = 1 \<and>
      stdin t = ks \<and> calls t = calls s @ [(EndCmdFunc, 0, [])]"
    by (intro scp_parse_loop_end [where users = users and e = e]) simp_all
next
  assume "d \<noteq> 0 \<and> scp_init d (startup ks) = Inr s"
  then show "find_command (head (cmd_list s)) (Some ''end'') = Inr None"
    by (auto dest!: scp_init_head
          simp: find_command_Cons names_token_def help_cmd_def new_command_def
          simp del: find_command.simps(2))
next
  assume h: "d \<noteq> 0 \<and> configured d s0 \<and> cmd_list s = cmd_list s0 \<and> end_parsing s = 0"
  then show noend: "\<forall>c\<in>set (head (cmd_list s)). func c \<noteq> EndCmdFunc"
    using configured_disabled [of d s0] by simp
  show "\<forall>count' t. scp_parse_body count s = Inr (count', t) \<longrightarrow>
           end_parsing t = 0 \<and> cmd_list t = cmd_list s"
  proof (intro allI impI)
    fix count' t assume "scp_parse_body count s = Inr (count', t)"
    from scp_parse_body_effect [OF this] noend h
    show "end_parsing t = 0 \<and> cmd_list t = cmd_list s"
      by auto
  qed
  show "\<forall>t. scp_parse_loop n count s \<noteq> Some (Inr t)"
    using scp_parse_loop_never_returns [OF noend, of n count] h by blast
next
  assume h: "d \<noteq> 0 \<and> configured d s"
  let ?s = "snd (help_cmd_func 0 [] s)"
  from h have "\<forall>c\<in>set (head (cmd_list ?s)). func c \<noteq> EndCmdFunc" and "end_parsing ?s = 0"
    using configured_disabled [of d s] configured_end_parsing [of d s]
    by (simp_all add: help_cmd_func_fields)
  then show "\<forall>t. scp_parse n s \<noteq> Some (Inr t)"
    unfolding scp_parse_def using scp_parse_loop_never_returns [of ?s n 1] by blast
qed

text \<open>
  Claim C4. The header promises that after \<open>scp_init\<close> with a nonzero argument the
  parser parses forever, and the claim says the loop never terminates. It does: a line
  of one space makes the first turn of the loop hand the null pointer to
  \<open>find_command\<close>, and the loop ends there, the stop flag still 0, whatever the fuel.
\<close>

theorem scp_parse_disabled_ends_on_blank_line:
  "scp_init 1 (startup ('' '' @ [LF])) =
     Inr ((startup ('' '' @ [LF]))\<lparr>cmd_list := \<lparr>head = [help_cmd], list_size = 1\<rparr>\<rparr>)
   \<and> end_parsing ((startup ('' '' @ [LF]))\<lparr>cmd_list := \<lparr>head = [help_cmd], list_size = 1\<rparr>\<rparr>) = 0
   \<and> scp_parse (Suc n)
       ((startup ('' '' @ [LF]))\<lparr>cmd_list := \<lparr>head = [help_cmd], list_size = 1\<rparr>\<rparr>) =
     Some (Inl NullPointer)"
proof -
  let ?init = "(startup ('' '' @ [LF]))\<lparr>cmd_list := \<lparr>head = [help_cmd], list_size = 1\<rparr>\<rparr>"
  let ?start = "snd (help_cmd_func 0 [] ?init)"
  let ?r = "input MAX_INPUT_BUFFER (stdin ?start)"
  have i: "scp_init 1 (startup ('' '' @ [LF])) = Inr ?init"
    by (simp add: scp_init_def startup_def help_cmd_def Let_def)
  have f: "end_parsing ?init = 0" "end_parsing ?start = 0"
    by (simp_all add: startup_def help_cmd_func_fields)
  have r: "ret ?r = 1" "line ?r = '' ''"
    using input_ordinary_line [of "'' ''" MAX_INPUT_BUFFER LF "[]"]
    by (simp_all add: help_cmd_func_fields startup_def MAX_INPUT_BUFFER_def CR_def LF_def
          BS_def DEL_def NUL_def)
  have ne: "ret ?r \<noteq> 0" and fits: "ret ?r < MAX_INPUT_BUFFER"
    using r(1) by (simp_all add: MAX_INPUT_BUFFER_def)
  have tok: "strtok (line ?r) '' .,'' = (None, [])"
    unfolding r by (simp add: strtok_def)
  have "head (cmd_list (after_input 1 ?r ?start)) \<noteq> []"
    by (simp add: after_input_fields help_cmd_func_fields)
  from dispatch_null_token [OF tok this, of 1] ne fits
  have "scp_parse_body 1 ?start = Inl NullPointer"
    by (simp add: scp_parse_body_dispatch)
  then have "scp_parse (Suc n) ?init = Some (Inl NullPointer)"
    unfolding scp_parse_def using f(2) by (subst scp_parse_loop.simps) simp
  with i f(1) show ?thesis
    by simp
qed

end
